theory Spec2Isabelle
  imports Complex_Main
begin

chapter \<open>The model\<close>

section \<open>Coordinates and leaf nodes\<close>

text \<open>
  \<^verbatim>\<open>Coord\<close> is three signed integers. The source uses \<^verbatim>\<open>Int32\<close>; the sums
  \<^verbatim>\<open>i + width\<close> of \<^verbatim>\<open>Filter::Avg\<close> are modelled on unbounded integers, that is, for
  coordinates far from the ends of the 32-bit range.
\<close>

type_synonym Coord = "int \<times> int \<times> int"

text \<open>
  \<^verbatim>\<open>ValueType\<close> and \<^verbatim>\<open>AlphaType\<close> are floating-point types in the source. They are
  modelled by the rationals: sums, products and comparisons are exact, and rounding is
  outside the model.
\<close>

type_synonym ValueType = rat

type_synonym AlphaType = rat

text \<open>
  Modelled from the spec: the leaf node, the tree and the value accessor (\<^verbatim>\<open>LeafNode.h\<close>,
  \<^verbatim>\<open>Tree.h\<close> and \<^verbatim>\<open>ValueAccessor.h\<close> are not part of the sources).
  The leaf node is a dense block of \<^verbatim>\<open>DIM\<close> x \<^verbatim>\<open>DIM\<close> x \<^verbatim>\<open>DIM\<close> voxels with
  \<^verbatim>\<open>DIM = 1 << LOG2DIM\<close>; the unit tests assert \<^verbatim>\<open>LeafNodeType::DIM == 1 << 3\<close> for
  the tree configuration \<^verbatim>\<open>Tree543f\<close>. A voxel is addressed inside its leaf by a linear
  offset (\<^verbatim>\<open>iter.pos()\<close>) and globally by its coordinate (\<^verbatim>\<open>iter.getCoord()\<close>).
\<close>

definition LOG2DIM :: nat where
  "LOG2DIM = 3"

definition DIM :: int where
  "DIM = 2 ^ LOG2DIM"

definition NUM_VALUES :: nat where
  "NUM_VALUES = 2 ^ (3 * LOG2DIM)"

definition coordToOffset :: "Coord \<Rightarrow> nat" where
  "coordToOffset xyz =
     (case xyz of (x, y, z) \<Rightarrow>
        nat ((x mod DIM) * (DIM * DIM) + (y mod DIM) * DIM + (z mod DIM)))"

definition offsetToLocalCoord :: "nat \<Rightarrow> Coord" where
  "offsetToLocalCoord n =
     (int n div (DIM * DIM), (int n div DIM) mod DIM, int n mod DIM)"

definition leafOrigin :: "Coord \<Rightarrow> Coord" where
  "leafOrigin xyz = (case xyz of (x, y, z) \<Rightarrow> (x - x mod DIM, y - y mod DIM, z - z mod DIM))"

definition offsetBy :: "Coord \<Rightarrow> Coord \<Rightarrow> Coord" where
  "offsetBy a b = (case a of (x, y, z) \<Rightarrow> case b of (i, j, k) \<Rightarrow> (x + i, y + j, z + k))"

record LeafNode =
  origin :: Coord
  valueMask :: "nat \<Rightarrow> bool"
  buffer :: "nat \<Rightarrow> ValueType"

text \<open>
  A tree holds its background value, the tiles of its internal nodes (looked up by the
  coordinate they cover: value and active flag) and its leaf nodes in traversal order.
\<close>

record Tree =
  background :: ValueType
  tiles :: "Coord \<Rightarrow> (ValueType \<times> bool) option"
  leafs :: "LeafNode list"

definition probeLeaf :: "Tree \<Rightarrow> Coord \<Rightarrow> LeafNode option" where
  "probeLeaf t xyz = find (\<lambda>l. origin l = leafOrigin xyz) (leafs t)"

text \<open>
  \<^verbatim>\<open>acc.getValue(xyz)\<close>: the stored value of the voxel, whether it is active or not;
  outside every leaf, the value of the covering tile or the background.
\<close>

definition getValue :: "Tree \<Rightarrow> Coord \<Rightarrow> ValueType" where
  "getValue t xyz =
     (case probeLeaf t xyz of
        Some l \<Rightarrow> buffer l (coordToOffset xyz)
      | None \<Rightarrow> (case tiles t xyz of Some (v, a) \<Rightarrow> v | None \<Rightarrow> background t))"

definition isValueOn :: "Tree \<Rightarrow> Coord \<Rightarrow> bool" where
  "isValueOn t xyz =
     (case probeLeaf t xyz of
        Some l \<Rightarrow> valueMask l (coordToOffset xyz)
      | None \<Rightarrow> (case tiles t xyz of Some (v, a) \<Rightarrow> a | None \<Rightarrow> False))"

text \<open>
  \<^verbatim>\<open>leaf->cbeginValueOn()\<close> visits the active voxels of a leaf by increasing offset.
\<close>

definition onOffsets :: "LeafNode \<Rightarrow> nat list" where
  "onOffsets l = filter (valueMask l) [0..<NUM_VALUES]"

definition getCoord :: "LeafNode \<Rightarrow> nat \<Rightarrow> Coord" where
  "getCoord l pos = offsetBy (origin l) (offsetToLocalCoord pos)"

section \<open>Filter.h: the filter object\<close>

datatype error = ValueError

text \<open>
  The task bound to \<^verbatim>\<open>mTask\<close> by \<^verbatim>\<open>std::bind\<close>: the private method and its argument.
\<close>

datatype Task = DoBoxX int | DoBoxY int | DoBoxZ int | DoMedian int | DoOffset ValueType

text \<open>
  The mask grid is read only through \<^verbatim>\<open>AlphaMask\<close>, whose header is not part of the
  sources: a mask is modelled by the functor that
  \<^verbatim>\<open>AlphaMask(grid, mask, min, max, invert)\<close> builds from it, which maps a coordinate
  to the result of \<^verbatim>\<open>alpha(xyz, a, b)\<close> and the two weights. The interrupter is
  either absent (\<^verbatim>\<open>nullptr\<close>, the default) or present; a present interrupter is
  modelled by the answer that its \<^verbatim>\<open>wasInterrupted()\<close> gives throughout one call.
  The private methods poll it and ignore the answer; that an interruption cancels the
  sub-ranges of a parallel pass that have not started is outside the model.
\<close>

type_synonym MaskType = "AlphaType \<Rightarrow> AlphaType \<Rightarrow> bool \<Rightarrow> Coord \<Rightarrow> bool \<times> AlphaType \<times> AlphaType"

record Filter =
  mGrid :: Tree
  mTask :: "Task option"
  mInterrupter :: "bool option"
  mMask :: "MaskType option"
  mGrainSize :: int
  mMinMask :: AlphaType
  mMaxMask :: AlphaType
  mInvertMask :: bool

definition newFilter :: "Tree \<Rightarrow> bool option \<Rightarrow> Filter" where
  "newFilter grid interrupt =
     \<lparr>mGrid = grid, mTask = None, mInterrupter = interrupt, mMask = None,
      mGrainSize = 1, mMinMask = 0, mMaxMask = 1, mInvertMask = False\<rparr>"

text \<open>
  \<^verbatim>\<open>setMaskRange\<close> throws before it assigns: the model returns the error together with
  the filter as the call leaves it.
\<close>

definition setMaskRange :: "AlphaType \<Rightarrow> AlphaType \<Rightarrow> Filter \<Rightarrow> error option \<times> Filter" where
  "setMaskRange mn mx f =
     (if \<not> (mn < mx) then (Some ValueError, f)
      else (None, f\<lparr>mMinMask := mn, mMaxMask := mx\<rparr>))"

definition minMask :: "Filter \<Rightarrow> AlphaType" where
  "minMask f = mMinMask f"

definition maxMask :: "Filter \<Rightarrow> AlphaType" where
  "maxMask f = mMaxMask f"

definition wasInterrupted :: "Filter \<Rightarrow> bool" where
  "wasInterrupted f = (case mInterrupter f of None \<Rightarrow> False | Some b \<Rightarrow> b)"

text \<open>
  \<^verbatim>\<open>setGrainSize\<close>: grain size 0 disables the threads.
\<close>

definition setGrainSize :: "int \<Rightarrow> Filter \<Rightarrow> Filter" where
  "setGrainSize grainsize f = f\<lparr>mGrainSize := grainsize\<rparr>"

section \<open>The leaf manager\<close>

text \<open>
  Modelled from the spec: \<^verbatim>\<open>tree::LeafManager\<close> (its header is not part of the
  sources). The manager refers to the leaf nodes of the tree in traversal order and owns
  the auxiliary (scratch) buffers of each leaf, \<^verbatim>\<open>buffer(1)\<close> being the first of them;
  a scratch buffer starts as a copy of the value buffer of its leaf (the spec leaves
  its first contents open; a copy is what lets a pass skip a voxel). The model keeps the
  leaves in the tree and the scratch buffers in the manager, the i-th entry belonging to
  the i-th leaf. \<^verbatim>\<open>swapLeafBuffer(bufferIdx)\<close> exchanges the value buffer of each leaf
  with that scratch buffer, and does nothing when the manager has no such buffer. A
  manager that is used on the tree it was built from has one entry per leaf.
\<close>

record LeafManager =
  mAuxBuffersPerLeaf :: nat
  mAuxBuffers :: "(nat \<Rightarrow> ValueType) list list"

definition newLeafManager :: "Tree \<Rightarrow> nat \<Rightarrow> LeafManager" where
  "newLeafManager t n =
     \<lparr>mAuxBuffersPerLeaf = n, mAuxBuffers = map (\<lambda>l. replicate n (buffer l)) (leafs t)\<rparr>"

definition swapLeafBuffer :: "nat \<Rightarrow> Tree \<times> LeafManager \<Rightarrow> Tree \<times> LeafManager" where
  "swapLeafBuffer bufferIdx s =
     (case s of (t, lm) \<Rightarrow>
        if bufferIdx = 0 \<or> bufferIdx > mAuxBuffersPerLeaf lm then (t, lm)
        else
          (t\<lparr>leafs := map (\<lambda>(l, aux). l\<lparr>buffer := aux ! (bufferIdx - 1)\<rparr>)
                          (zip (leafs t) (mAuxBuffers lm))\<rparr>,
           lm\<lparr>mAuxBuffers := map (\<lambda>(l, aux). aux[bufferIdx - 1 := buffer l])
                                (zip (leafs t) (mAuxBuffers lm))\<rparr>))"

section \<open>Filter.h: the private filter methods\<close>

text \<open>
  \<^verbatim>\<open>Avg<Axis>::operator()\<close>: the sum of the \<^verbatim>\<open>2*width+1\<close> values read through the
  accessor along \<^verbatim>\<open>Axis\<close> (0 is x, 1 is y, 2 is z, as \<^verbatim>\<open>xyz[Axis]\<close> indexes a
  coordinate), times \<^verbatim>\<open>frac = 1/(2*width+1)\<close>.
\<close>

fun getAxis :: "Coord \<Rightarrow> nat \<Rightarrow> int" where
  "getAxis (x, y, z) axis = (if axis = 0 then x else if axis = 1 then y else z)"

fun setAxis :: "Coord \<Rightarrow> nat \<Rightarrow> int \<Rightarrow> Coord" where
  "setAxis (x, y, z) axis v =
     (if axis = 0 then (v, y, z) else if axis = 1 then (x, v, z) else (x, y, v))"

definition Avg :: "Tree \<Rightarrow> nat \<Rightarrow> int \<Rightarrow> Coord \<Rightarrow> ValueType" where
  "Avg grid axis width xyz =
     (let i = getAxis xyz axis; j = i + width;
          sum = fold (\<lambda>k sum. sum + getValue grid (setAxis xyz axis k)) [i - width..j] 0
      in sum * (1 / of_int (2 * width + 1)))"

text \<open>
  Modelled from the spec: \<^verbatim>\<open>math::DenseStencil\<close> (\<^verbatim>\<open>Stencils.h\<close> is not part of the
  sources). \<^verbatim>\<open>moveTo\<close> collects the values of the \<^verbatim>\<open>(2w+1)^3\<close> neighbourhood of the
  voxel through the accessor; \<^verbatim>\<open>median()\<close> sorts them and selects the element at index
  \<^verbatim>\<open>(N-1)/2\<close>. The filter calls it with a width of at least 1, so \<^verbatim>\<open>N\<close> is at
  least 27.
\<close>

definition stencilValues :: "Tree \<Rightarrow> int \<Rightarrow> Coord \<Rightarrow> ValueType list" where
  "stencilValues grid w xyz =
     (case xyz of (x, y, z) \<Rightarrow>
        concat (map (\<lambda>i. concat (map (\<lambda>j. map (\<lambda>k. getValue grid (i, j, k)) [z - w..z + w])
                                       [y - w..y + w]))
                    [x - w..x + w]))"

definition stencilMedian :: "Tree \<Rightarrow> int \<Rightarrow> Coord \<Rightarrow> ValueType" where
  "stencilMedian grid w xyz =
     (let vs = sort (stencilValues grid w xyz) in vs ! ((length vs - 1) div 2))"

text \<open>
  The state of one pass is the filter (whose \<^verbatim>\<open>mGrid\<close> is the tree that the leaf
  manager refers to) and the leaf manager. The range of a pass is the whole leaf
  sequence; the loop over the leaf iterator hands the body each leaf with its scratch
  buffers.
\<close>

definition doBoxLeaf :: "Filter \<Rightarrow> nat \<Rightarrow> int \<Rightarrow> LeafNode \<Rightarrow> (nat \<Rightarrow> ValueType) \<Rightarrow> (nat \<Rightarrow> ValueType)" where
  "doBoxLeaf f axis w leaf buffer1 =
     (case mMask f of
        Some alpha \<Rightarrow>
          fold (\<lambda>pos b.
                  let xyz = getCoord leaf pos in
                  case alpha (mMinMask f) (mMaxMask f) (mInvertMask f) xyz of
                    (ok, a, b') \<Rightarrow>
                      if ok then b(pos := b' * buffer leaf pos + a * Avg (mGrid f) axis w xyz)
                      else b)
               (onOffsets leaf) buffer1
      | None \<Rightarrow>
          fold (\<lambda>pos b. b(pos := Avg (mGrid f) axis w (getCoord leaf pos)))
               (onOffsets leaf) buffer1)"

definition doBox :: "nat \<Rightarrow> int \<Rightarrow> Filter \<times> LeafManager \<Rightarrow> Filter \<times> LeafManager" where
  "doBox axis w s =
     (case s of (f, lm) \<Rightarrow>
        (f, lm\<lparr>mAuxBuffers :=
                 map (\<lambda>(leaf, aux). aux[0 := doBoxLeaf f axis w leaf (aux ! 0)])
                     (zip (leafs (mGrid f)) (mAuxBuffers lm))\<rparr>))"

definition doBoxX :: "int \<Rightarrow> Filter \<times> LeafManager \<Rightarrow> Filter \<times> LeafManager" where
  "doBoxX w s = doBox 0 w s"

definition doBoxZ :: "int \<Rightarrow> Filter \<times> LeafManager \<Rightarrow> Filter \<times> LeafManager" where
  "doBoxZ w s = doBox 1 w s"

definition doBoxY :: "int \<Rightarrow> Filter \<times> LeafManager \<Rightarrow> Filter \<times> LeafManager" where
  "doBoxY w s = doBox 2 w s"

definition doMedianLeaf :: "Filter \<Rightarrow> int \<Rightarrow> LeafNode \<Rightarrow> (nat \<Rightarrow> ValueType) \<Rightarrow> (nat \<Rightarrow> ValueType)" where
  "doMedianLeaf f width leaf buffer1 =
     (case mMask f of
        Some alpha \<Rightarrow>
          fold (\<lambda>pos b.
                  let xyz = getCoord leaf pos in
                  case alpha (mMinMask f) (mMaxMask f) (mInvertMask f) xyz of
                    (ok, a, b') \<Rightarrow>
                      if ok then b(pos := b' * buffer leaf pos + a * stencilMedian (mGrid f) width xyz)
                      else b)
               (onOffsets leaf) buffer1
      | None \<Rightarrow>
          fold (\<lambda>pos b. b(pos := stencilMedian (mGrid f) width (getCoord leaf pos)))
               (onOffsets leaf) buffer1)"

definition doMedian :: "int \<Rightarrow> Filter \<times> LeafManager \<Rightarrow> Filter \<times> LeafManager" where
  "doMedian width s =
     (case s of (f, lm) \<Rightarrow>
        (f, lm\<lparr>mAuxBuffers :=
                 map (\<lambda>(leaf, aux). aux[0 := doMedianLeaf f width leaf (aux ! 0)])
                     (zip (leafs (mGrid f)) (mAuxBuffers lm))\<rparr>))"

text \<open>
  \<^verbatim>\<open>doOffset\<close> writes through the iterator (\<^verbatim>\<open>iter.setValue\<close>), into the value buffer
  of the leaf itself.
\<close>

definition doOffsetLeaf :: "Filter \<Rightarrow> ValueType \<Rightarrow> LeafNode \<Rightarrow> LeafNode" where
  "doOffsetLeaf f offset leaf =
     (case mMask f of
        Some alpha \<Rightarrow>
          fold (\<lambda>pos l.
                  case alpha (mMinMask f) (mMaxMask f) (mInvertMask f) (getCoord l pos) of
                    (ok, a, b') \<Rightarrow>
                      if ok then l\<lparr>buffer := (buffer l)(pos := buffer l pos + a * offset)\<rparr>
                      else l)
               (onOffsets leaf) leaf
      | None \<Rightarrow>
          fold (\<lambda>pos l. l\<lparr>buffer := (buffer l)(pos := buffer l pos + offset)\<rparr>)
               (onOffsets leaf) leaf)"

definition doOffset :: "ValueType \<Rightarrow> Filter \<times> LeafManager \<Rightarrow> Filter \<times> LeafManager" where
  "doOffset offset s =
     (case s of (f, lm) \<Rightarrow>
        (f\<lparr>mGrid := (mGrid f)\<lparr>leafs := map (doOffsetLeaf f offset) (leafs (mGrid f))\<rparr>\<rparr>, lm))"

section \<open>Filter.h: running a task\<close>

fun runTask :: "Task \<Rightarrow> Filter \<times> LeafManager \<Rightarrow> Filter \<times> LeafManager" where
  "runTask (DoBoxX w) s = doBoxX w s"
| "runTask (DoBoxY w) s = doBoxY w s"
| "runTask (DoBoxZ w) s = doBoxZ w s"
| "runTask (DoMedian w) s = doMedian w s"
| "runTask (DoOffset v) s = doOffset v s"

text \<open>
  \<^verbatim>\<open>operator()\<close>: runs the task over the range, or throws when no task is bound.
\<close>

definition runRange :: "Filter \<times> LeafManager \<Rightarrow> error + Filter \<times> LeafManager" where
  "runRange s =
     (case mTask (fst s) of
        Some task \<Rightarrow> Inr (runTask task s)
      | None \<Rightarrow> Inl ValueError)"

text \<open>
  \<^verbatim>\<open>tbb::parallel_for(range, body)\<close> applies the body to sub-ranges that partition the
  range. The model gives it the meaning of the body applied to the whole range, in
  leaf order; the threads themselves are outside the model.
\<close>

definition parallel_for :: "Filter \<times> LeafManager \<Rightarrow> error + Filter \<times> LeafManager" where
  "parallel_for s = runRange s"

definition cook :: "Filter \<times> LeafManager \<Rightarrow> error + Filter \<times> LeafManager" where
  "cook s =
     (case (if mGrainSize (fst s) > 0 then parallel_for s else runRange s) of
        Inl e \<Rightarrow> Inl e
      | Inr (f, lm) \<Rightarrow>
          (case swapLeafBuffer 1 (mGrid f, lm) of (t, lm') \<Rightarrow> Inr (f\<lparr>mGrid := t\<rparr>, lm')))"

definition cookTask :: "Task \<Rightarrow> Filter \<times> LeafManager \<Rightarrow> error + Filter \<times> LeafManager" where
  "cookTask task s = (case s of (f, lm) \<Rightarrow> cook (f\<lparr>mTask := Some task\<rparr>, lm))"

definition andThen :: "error + 'a \<Rightarrow> ('a \<Rightarrow> error + 'b) \<Rightarrow> error + 'b" where
  "andThen r k = (case r of Inl e \<Rightarrow> Inl e | Inr x \<Rightarrow> k x)"

section \<open>Filter.h: the public filter methods\<close>

text \<open>
  The body of the loops of \<^verbatim>\<open>mean\<close> and \<^verbatim>\<open>gaussian\<close>: the three tasks in the order
  in which the source binds and cooks them.
\<close>

definition boxPasses :: "int \<Rightarrow> Filter \<times> LeafManager \<Rightarrow> error + Filter \<times> LeafManager" where
  "boxPasses w s =
     andThen (cookTask (DoBoxX w) s) (\<lambda>s1.
     andThen (cookTask (DoBoxY w) s1) (\<lambda>s2.
     cookTask (DoBoxZ w) s2))"

fun meanLoop :: "nat \<Rightarrow> int \<Rightarrow> Filter \<times> LeafManager \<Rightarrow> error + Filter \<times> LeafManager" where
  "meanLoop 0 w s = Inr s"
| "meanLoop (Suc n) w s =
     (if wasInterrupted (fst s) then Inr s
      else andThen (boxPasses w s) (meanLoop n w))"

definition mean :: "int \<Rightarrow> int \<Rightarrow> MaskType option \<Rightarrow> Filter \<Rightarrow> error + Filter" where
  "mean width iterations msk f0 =
     (let f = f0\<lparr>mMask := msk\<rparr>;
          w = max 1 width;
          leafs = newLeafManager (mGrid f) 1
      in andThen (meanLoop (nat iterations) w (f, leafs)) (\<lambda>s. Inr (fst s)))"

fun gaussianInner :: "nat \<Rightarrow> int \<Rightarrow> Filter \<times> LeafManager \<Rightarrow> error + Filter \<times> LeafManager" where
  "gaussianInner 0 w s = Inr s"
| "gaussianInner (Suc n) w s =
     (if wasInterrupted (fst s) then Inr s
      else andThen (boxPasses w s) (gaussianInner n w))"

fun gaussianLoop :: "nat \<Rightarrow> int \<Rightarrow> Filter \<times> LeafManager \<Rightarrow> error + Filter \<times> LeafManager" where
  "gaussianLoop 0 w s = Inr s"
| "gaussianLoop (Suc i) w s = andThen (gaussianInner 4 w s) (gaussianLoop i w)"

definition gaussian :: "int \<Rightarrow> int \<Rightarrow> MaskType option \<Rightarrow> Filter \<Rightarrow> error + Filter" where
  "gaussian width iterations msk f0 =
     (let f = f0\<lparr>mMask := msk\<rparr>;
          w = max 1 width;
          leafs = newLeafManager (mGrid f) 1
      in andThen (gaussianLoop (nat iterations) w (f, leafs)) (\<lambda>s. Inr (fst s)))"

fun medianLoop :: "nat \<Rightarrow> Filter \<times> LeafManager \<Rightarrow> error + Filter \<times> LeafManager" where
  "medianLoop 0 s = Inr s"
| "medianLoop (Suc n) s =
     (if wasInterrupted (fst s) then Inr s
      else andThen (cook s) (medianLoop n))"

definition median :: "int \<Rightarrow> int \<Rightarrow> MaskType option \<Rightarrow> Filter \<Rightarrow> error + Filter" where
  "median width iterations msk f0 =
     (let f = f0\<lparr>mMask := msk\<rparr>;
          leafs = newLeafManager (mGrid f) 1;
          f' = f\<lparr>mTask := Some (DoMedian (max 1 width))\<rparr>
      in andThen (medianLoop (nat iterations) (f', leafs)) (\<lambda>s. Inr (fst s)))"

definition offset :: "ValueType \<Rightarrow> MaskType option \<Rightarrow> Filter \<Rightarrow> error + Filter" where
  "offset v msk f0 =
     (let f = f0\<lparr>mMask := msk\<rparr>;
          leafs = newLeafManager (mGrid f) 0
      in andThen (cookTask (DoOffset v) (f, leafs)) (\<lambda>s. Inr (fst s)))"

section \<open>A small grid\<close>

text \<open>
  One leaf at the origin with three active voxels, \<^verbatim>\<open>(0,0,0)\<close>, \<^verbatim>\<open>(0,0,1)\<close> and
  \<^verbatim>\<open>(0,1,0)\<close> (offsets 0, 1 and 8); the voxel \<^verbatim>\<open>(0,0,1)\<close> stores 9, every other
  voxel and the background 0.
\<close>

definition exampleLeaf :: LeafNode where
  "exampleLeaf =
     \<lparr>origin = (0, 0, 0),
      valueMask = (\<lambda>n. n = 0 \<or> n = 1 \<or> n = 8),
      buffer = (\<lambda>n. if n = 1 then 9 else 0)\<rparr>"

definition exampleGrid :: Tree where
  "exampleGrid = \<lparr>background = 0, tiles = (\<lambda>xyz. None), leafs = [exampleLeaf]\<rparr>"

definition exampleFilter :: Filter where
  "exampleFilter = newFilter exampleGrid None"

section \<open>Filter.h: only values change, not the topology\<close>

text \<open>
  What a filter call may change: in each leaf, the values stored at active voxels.
  \<^verbatim>\<open>leafFrame l l'\<close> says that \<^verbatim>\<open>l'\<close> is \<^verbatim>\<open>l\<close> up to such values;
  \<^verbatim>\<open>valuesOnlyModified\<close> says it of a tree, leaf by leaf, with the same background and
  tiles. \<^verbatim>\<open>passInv\<close> is the invariant of the passes: the tree is the original one up to
  values at active voxels, every leaf has one scratch buffer, and the scratch buffer
  agrees with the value buffer wherever the pass does not write.
\<close>

definition leafFrame :: "LeafNode \<Rightarrow> LeafNode \<Rightarrow> bool" where
  "leafFrame l l' \<longleftrightarrow>
     origin l' = origin l \<and> valueMask l' = valueMask l
     \<and> (\<forall>pos. \<not> (pos < NUM_VALUES \<and> valueMask l pos) \<longrightarrow> buffer l' pos = buffer l pos)"

definition valuesOnlyModified :: "Tree \<Rightarrow> Tree \<Rightarrow> bool" where
  "valuesOnlyModified t t' \<longleftrightarrow>
     background t' = background t \<and> tiles t' = tiles t
     \<and> list_all2 leafFrame (leafs t) (leafs t')"

definition auxSynced :: "LeafNode \<Rightarrow> (nat \<Rightarrow> ValueType) list \<Rightarrow> bool" where
  "auxSynced l aux \<longleftrightarrow>
     length aux = 1
     \<and> (\<forall>pos. \<not> (pos < NUM_VALUES \<and> valueMask l pos) \<longrightarrow> (aux ! 0) pos = buffer l pos)"

definition passInv :: "Tree \<Rightarrow> Filter \<times> LeafManager \<Rightarrow> bool" where
  "passInv t0 s \<longleftrightarrow>
     valuesOnlyModified t0 (mGrid (fst s))
     \<and> mAuxBuffersPerLeaf (snd s) = 1
     \<and> list_all2 auxSynced (leafs (mGrid (fst s))) (mAuxBuffers (snd s))"

text \<open>
  The topology of a tree: its background, its tiles, the origins of its leaves in
  order, the active mask of each leaf, and so the active state of every coordinate.
  \<^verbatim>\<open>inactiveValuesKept\<close>: every coordinate that is not active reads the same value
  in both trees.
\<close>

definition sameTopology :: "Tree \<Rightarrow> Tree \<Rightarrow> bool" where
  "sameTopology t t' \<longleftrightarrow>
     background t' = background t \<and> tiles t' = tiles t
     \<and> map origin (leafs t') = map origin (leafs t)
     \<and> map valueMask (leafs t') = map valueMask (leafs t)
     \<and> (\<forall>xyz. isValueOn t' xyz = isValueOn t xyz)"

definition inactiveValuesKept :: "Tree \<Rightarrow> Tree \<Rightarrow> bool" where
  "inactiveValuesKept t t' \<longleftrightarrow>
     (\<forall>xyz. \<not> isValueOn t xyz \<longrightarrow> getValue t' xyz = getValue t xyz)"

section \<open>Filter.h: the axes of the box passes\<close>

text \<open>
  \<^verbatim>\<open>boxPassAlong axis\<close> is one cooked box pass along an axis: \<^verbatim>\<open>doBox\<close> on that axis,
  then the swap of the scratch buffers. \<^verbatim>\<open>specMeanIteration\<close> follows the words of the
  specification, one pass along x, then y, then z; it is the reference that the
  iteration of the source (\<^verbatim>\<open>boxPasses\<close>) is compared with.
\<close>

definition boxPassAlong :: "nat \<Rightarrow> int \<Rightarrow> Filter \<times> LeafManager \<Rightarrow> Filter \<times> LeafManager" where
  "boxPassAlong axis w s =
     (case doBox axis w s of (f, lm) \<Rightarrow>
        case swapLeafBuffer 1 (mGrid f, lm) of (t, lm') \<Rightarrow> (f\<lparr>mGrid := t\<rparr>, lm'))"

definition specMeanIteration :: "int \<Rightarrow> Filter \<times> LeafManager \<Rightarrow> Filter \<times> LeafManager" where
  "specMeanIteration w s = boxPassAlong 2 w (boxPassAlong 1 w (boxPassAlong 0 w s))"

text \<open>
  \<^verbatim>\<open>withTask\<close> binds a task as \<^verbatim>\<open>mean\<close> does before it cooks. \<^verbatim>\<open>oneLeafState task b a\<close>
  is the state of a pass on the small grid when its leaf holds the values \<^verbatim>\<open>b\<close> and
  its scratch buffer the values \<^verbatim>\<open>a\<close>.
\<close>

definition withTask :: "Task \<Rightarrow> Filter \<times> LeafManager \<Rightarrow> Filter \<times> LeafManager" where
  "withTask task s = (case s of (f, lm) \<Rightarrow> (f\<lparr>mTask := Some task\<rparr>, lm))"

text \<open>
  \<^verbatim>\<open>boxRound\<close> is the body of the loops of \<^verbatim>\<open>mean\<close> and \<^verbatim>\<open>gaussian\<close> as a
  function of the state: the three cooked passes with the axes that the source binds.
\<close>

definition boxRound :: "int \<Rightarrow> Filter \<times> LeafManager \<Rightarrow> Filter \<times> LeafManager" where
  "boxRound w s =
     boxPassAlong 1 w (withTask (DoBoxZ w)
       (boxPassAlong 2 w (withTask (DoBoxY w)
         (boxPassAlong 0 w (withTask (DoBoxX w) s)))))"

definition oneLeaf :: "(nat \<Rightarrow> ValueType) \<Rightarrow> Tree" where
  "oneLeaf b = exampleGrid\<lparr>leafs := [exampleLeaf\<lparr>buffer := b\<rparr>]\<rparr>"

definition oneLeafState :: "Task option \<Rightarrow> (nat \<Rightarrow> ValueType) \<Rightarrow> (nat \<Rightarrow> ValueType) \<Rightarrow> Filter \<times> LeafManager" where
  "oneLeafState task b a =
     (exampleFilter\<lparr>mGrid := oneLeaf b, mTask := task\<rparr>,
      \<lparr>mAuxBuffersPerLeaf = 1, mAuxBuffers = [[a]]\<rparr>)"

section \<open>Filter.h: the offset in the arithmetic of \<^verbatim>\<open>ValueType\<close>\<close>

text \<open>
  \<^verbatim>\<open>ValueType\<close> is \<^verbatim>\<open>float\<close> in the unit tests, so the sum \<^verbatim>\<open>*iter + offset\<close> of
  \<^verbatim>\<open>doOffset\<close>, and with a mask the product \<^verbatim>\<open>a*offset\<close> and then the sum, are rounded
  to the format before \<^verbatim>\<open>iter.setValue\<close> stores them. The definitions of this section
  repeat the path of \<^verbatim>\<open>offset\<close> through \<^verbatim>\<open>cook\<close> with that rounding as the function
  \<^verbatim>\<open>rnd\<close>; the other tasks run as above. With the identity for \<^verbatim>\<open>rnd\<close> they are the
  definitions above.
\<close>

definition doOffsetLeafRnd :: "(ValueType \<Rightarrow> ValueType) \<Rightarrow> Filter \<Rightarrow> ValueType \<Rightarrow> LeafNode \<Rightarrow> LeafNode" where
  "doOffsetLeafRnd rnd f v leaf =
     (case mMask f of
        Some alpha \<Rightarrow>
          fold (\<lambda>pos l.
                  case alpha (mMinMask f) (mMaxMask f) (mInvertMask f) (getCoord l pos) of
                    (ok, a, b') \<Rightarrow>
                      if ok then l\<lparr>buffer := (buffer l)(pos := rnd (buffer l pos + rnd (a * v)))\<rparr>
                      else l)
               (onOffsets leaf) leaf
      | None \<Rightarrow>
          fold (\<lambda>pos l. l\<lparr>buffer := (buffer l)(pos := rnd (buffer l pos + v))\<rparr>)
               (onOffsets leaf) leaf)"

definition doOffsetRnd :: "(ValueType \<Rightarrow> ValueType) \<Rightarrow> ValueType \<Rightarrow> Filter \<times> LeafManager \<Rightarrow> Filter \<times> LeafManager" where
  "doOffsetRnd rnd v s =
     (case s of (f, lm) \<Rightarrow>
        (f\<lparr>mGrid := (mGrid f)\<lparr>leafs := map (doOffsetLeafRnd rnd f v) (leafs (mGrid f))\<rparr>\<rparr>, lm))"

fun runTaskRnd :: "(ValueType \<Rightarrow> ValueType) \<Rightarrow> Task \<Rightarrow> Filter \<times> LeafManager \<Rightarrow> Filter \<times> LeafManager" where
  "runTaskRnd rnd (DoOffset v) s = doOffsetRnd rnd v s"
| "runTaskRnd rnd task s = runTask task s"

definition runRangeRnd :: "(ValueType \<Rightarrow> ValueType) \<Rightarrow> Filter \<times> LeafManager \<Rightarrow> error + Filter \<times> LeafManager" where
  "runRangeRnd rnd s =
     (case mTask (fst s) of
        Some task \<Rightarrow> Inr (runTaskRnd rnd task s)
      | None \<Rightarrow> Inl ValueError)"

definition parallel_forRnd :: "(ValueType \<Rightarrow> ValueType) \<Rightarrow> Filter \<times> LeafManager \<Rightarrow> error + Filter \<times> LeafManager" where
  "parallel_forRnd rnd s = runRangeRnd rnd s"

definition cookRnd :: "(ValueType \<Rightarrow> ValueType) \<Rightarrow> Filter \<times> LeafManager \<Rightarrow> error + Filter \<times> LeafManager" where
  "cookRnd rnd s =
     (case (if mGrainSize (fst s) > 0 then parallel_forRnd rnd s else runRangeRnd rnd s) of
        Inl e \<Rightarrow> Inl e
      | Inr (f, lm) \<Rightarrow>
          (case swapLeafBuffer 1 (mGrid f, lm) of (t, lm') \<Rightarrow> Inr (f\<lparr>mGrid := t\<rparr>, lm')))"

definition offsetRnd :: "(ValueType \<Rightarrow> ValueType) \<Rightarrow> ValueType \<Rightarrow> MaskType option \<Rightarrow> Filter \<Rightarrow> error + Filter" where
  "offsetRnd rnd v msk f0 =
     (let f = f0\<lparr>mMask := msk\<rparr>;
          leafs = newLeafManager (mGrid f) 0
      in andThen (cookRnd rnd (f\<lparr>mTask := Some (DoOffset v)\<rparr>, leafs)) (\<lambda>s. Inr (fst s)))"




text \<open>
  The rounding of IEEE 754 binary32, to the nearest value with a significand of 24
  bits, ties to the even significand: \<^verbatim>\<open>exponent x\<close> is the \<^verbatim>\<open>e\<close> with
  \<^verbatim>\<open>2^e \<le> x < 2^(e+1)\<close> for a positive \<^verbatim>\<open>x\<close>, and \<^verbatim>\<open>ulp32 x\<close> the spacing of the
  format at \<^verbatim>\<open>x\<close>, that of the subnormal numbers below \<^verbatim>\<open>2^-126\<close>. Overflow to
  infinity is outside the model.
\<close>

function log2floor :: "int \<Rightarrow> int" where
  "log2floor n = (if n < 2 then 0 else 1 + log2floor (n div 2))"
  by pat_completeness auto

termination
  by (relation "measure nat") auto

declare log2floor.simps [simp del]

definition exponent :: "rat \<Rightarrow> int" where
  "exponent x =
     (if 1 \<le> x then log2floor \<lfloor>x\<rfloor>
      else - (1 + log2floor (\<lceil>1 / x\<rceil> - 1)))"




section \<open>PointDelete.h: the point data tree\<close>

text \<open>
  Modelled from the spec: the point data leaf and its attribute set (\<^verbatim>\<open>PointDataGrid.h\<close>,
  \<^verbatim>\<open>AttributeSet.h\<close>, \<^verbatim>\<open>AttributeArray.h\<close> and \<^verbatim>\<open>IndexIterator.h\<close> are not part of
  the sources). The model keeps what \<^verbatim>\<open>deleteFromGroups\<close> and \<^verbatim>\<open>DeleteByFilterOp\<close> read and write.
  The attribute arrays of a leaf are seen row by row: row \<^verbatim>\<open>i\<close> holds the values of
  point \<^verbatim>\<open>i\<close> in every array, among them the groups whose bit is set for the point;
  \<^verbatim>\<open>pointId\<close> stands for the other attribute values of the point. The value of a voxel
  is the end offset of its points in the arrays, so the last value is the number of
  points of the leaf. Of each array, the stride checks read whether the stride is
  constant and the stride. The descriptor is kept by the names of its groups. The tree
  is the sequence of its leaves in the order of the leaf iterator.
\<close>

datatype point_error = NotImplementedError | LookupError

record PointRow =
  pointId :: nat
  memberOf :: "string list"

record AttributeArray =
  hasConstantStride :: bool
  stride :: nat

record PointLeaf =
  offsets :: "nat list"
  valueOn :: "bool list"
  rows :: "PointRow list"
  attributeArrays :: "AttributeArray list"
  groupMap :: "string list"

type_synonym PointDataTree = "PointLeaf list"

definition hasGroup :: "string list \<Rightarrow> string \<Rightarrow> bool" where
  "hasGroup descriptor name = (name \<in> set descriptor)"

definition getLastValue :: "PointLeaf \<Rightarrow> nat" where
  "getLastValue leaf = (if offsets leaf = [] then 0 else last (offsets leaf))"

text \<open>
  Modelled from the spec: \<^verbatim>\<open>MultiGroupFilter\<close> (\<^verbatim>\<open>IndexFilter.h\<close> is not part of the
  sources). Following the description of \<^verbatim>\<open>deleteFromGroups\<close>, a point passes the
  filter when it is a member of one of the included groups (or no group is included)
  and of none of the excluded groups; names that the descriptor does not know select no
  point.
\<close>

record MultiGroupFilter =
  mInclude :: "string list"
  mExclude :: "string list"

definition newMultiGroupFilter :: "string list \<Rightarrow> string list \<Rightarrow> string list \<Rightarrow> MultiGroupFilter" where
  "newMultiGroupFilter include exclude descriptor =
     \<lparr>mInclude = filter (hasGroup descriptor) include,
      mExclude = filter (hasGroup descriptor) exclude\<rparr>"

definition valid :: "MultiGroupFilter \<Rightarrow> PointRow \<Rightarrow> bool" where
  "valid f p =
     ((mInclude f = [] \<or> list_ex (\<lambda>g. g \<in> set (memberOf p)) (mInclude f))
      \<and> \<not> list_ex (\<lambda>g. g \<in> set (memberOf p)) (mExclude f))"

text \<open>
  Modelled from the spec: the index iterators of the leaf. \<^verbatim>\<open>beginIndexVoxel\<close> runs over the indices of the points of one
  voxel that pass the filter, \<^verbatim>\<open>beginIndexAll\<close> over those of the whole leaf. An index
  beyond the arrays selects nothing.
\<close>

definition voxelStart :: "PointLeaf \<Rightarrow> nat \<Rightarrow> nat" where
  "voxelStart leaf v = (if v = 0 then 0 else offsets leaf ! (v - 1))"

definition beginIndexVoxel :: "PointLeaf \<Rightarrow> nat \<Rightarrow> MultiGroupFilter \<Rightarrow> nat list" where
  "beginIndexVoxel leaf v f =
     filter (\<lambda>i. i < length (rows leaf) \<and> valid f (rows leaf ! i)) [voxelStart leaf v..<offsets leaf ! v]"

definition beginIndexAll :: "PointLeaf \<Rightarrow> MultiGroupFilter \<Rightarrow> nat list" where
  "beginIndexAll leaf f =
     filter (\<lambda>i. i < length (rows leaf) \<and> valid f (rows leaf ! i)) [0..<getLastValue leaf]"

text \<open>
  Modelled from the spec: \<^verbatim>\<open>clearAttributes(updateValueMask = true)\<close> of the leaf
  empties the arrays, zeroes the offsets and switches every voxel off.
\<close>

definition clearAttributes :: "PointLeaf \<Rightarrow> PointLeaf" where
  "clearAttributes leaf =
     leaf\<lparr>offsets := map (\<lambda>v. 0) (offsets leaf),
          valueOn := map (\<lambda>v. False) (valueOn leaf),
          rows := []\<rparr>"

section \<open>PointDelete.h: DeleteByFilterOp\<close>

text \<open>
  The loop over the attribute arrays that caches them and throws for an array without
  constant stride or with a stride other than that of the new array. The new arrays
  come from the constructor \<^verbatim>\<open>AttributeSet(existing, newSize, lock)\<close>, which is not
  part of the sources: it is the parameter \<^verbatim>\<open>create\<close> of the model.
\<close>

fun checkArrays :: "AttributeArray list \<Rightarrow> AttributeArray list \<Rightarrow> point_error option" where
  "checkArrays (newArray # ns) (existingArray # es) =
     (if \<not> hasConstantStride newArray \<or> \<not> hasConstantStride existingArray
      then Some NotImplementedError
      else if stride newArray \<noteq> stride existingArray then Some LookupError
      else checkArrays ns es)"
| "checkArrays ns es = None"

text \<open>
  The body of the loop over the voxels (ABI 6 and later): every point of the voxel that
  passes the filter adds the pair of its index and the next target index to
  \<^verbatim>\<open>indexMapping\<close>, and the voxel adds the target index reached to \<^verbatim>\<open>endOffsets\<close>.
\<close>

definition voxelStep :: "PointLeaf \<Rightarrow> MultiGroupFilter \<Rightarrow> nat
    \<Rightarrow> nat \<times> (nat \<times> nat) list \<times> nat list \<Rightarrow> nat \<times> (nat \<times> nat) list \<times> nat list" where
  "voxelStep leaf f v st =
     (case fold (\<lambda>i (attributeIndex, indexMapping).
                   (attributeIndex + 1, indexMapping @ [(i, attributeIndex)]))
                (beginIndexVoxel leaf v f) (fst st, fst (snd st)) of
        (attributeIndex, indexMapping) \<Rightarrow>
          (attributeIndex, indexMapping, snd (snd st) @ [attributeIndex]))"

text \<open>
  Modelled from the spec: \<^verbatim>\<open>AttributeArray::copyValues\<close> and \<^verbatim>\<open>setOffsets\<close> of the leaf.
  \<^verbatim>\<open>copyValues\<close> fills a new array through the mapping; the targets count up from 0,
  so the new rows are the source rows in the order of the mapping. \<^verbatim>\<open>setOffsets\<close>
  stores the end offsets and updates the value mask: a voxel is on when it holds a
  point.
\<close>

definition copyValues :: "PointRow list \<Rightarrow> (nat \<times> nat) list \<Rightarrow> PointRow list" where
  "copyValues existing indexMapping = map (\<lambda>(sourceIndex, targetIndex). existing ! sourceIndex) indexMapping"

definition setOffsets :: "nat list \<Rightarrow> PointLeaf \<Rightarrow> PointLeaf" where
  "setOffsets endOffsets leaf =
     leaf\<lparr>offsets := endOffsets,
          valueOn := map (\<lambda>v. (if v = 0 then 0 else endOffsets ! (v - 1)) < endOffsets ! v)
                         [0..<length endOffsets]\<rparr>"

definition deleteByFilterOp :: "(AttributeArray \<Rightarrow> nat \<Rightarrow> AttributeArray) \<Rightarrow> MultiGroupFilter
    \<Rightarrow> PointLeaf \<Rightarrow> point_error + PointLeaf" where
  "deleteByFilterOp create f leaf =
     (let newSize = length (beginIndexAll leaf f) in
      if newSize = 0 then Inr (clearAttributes leaf)
      else
        let currentSize = getLastValue leaf in
        if newSize = currentSize then Inr leaf
        else
          let newArrays = map (\<lambda>a. create a newSize) (attributeArrays leaf) in
          case checkArrays newArrays (attributeArrays leaf) of
            Some e \<Rightarrow> Inl e
          | None \<Rightarrow>
             (case fold (voxelStep leaf f) [0..<length (offsets leaf)] (0, [], []) of
                (attributeIndex, indexMapping, endOffsets) \<Rightarrow>
                  Inr (setOffsets endOffsets
                        (leaf\<lparr>rows := copyValues (rows leaf) indexMapping,
                              attributeArrays := newArrays\<rparr>))))"

text \<open>
  \<^verbatim>\<open>tbb::parallel_for(leafManager.leafRange(), deleteOp)\<close> with the meaning of the
  operation applied to every leaf; an exception of one leaf ends the call.
\<close>

fun forLeaves :: "(PointLeaf \<Rightarrow> point_error + PointLeaf) \<Rightarrow> PointDataTree \<Rightarrow> point_error + PointDataTree" where
  "forLeaves op [] = Inr []"
| "forLeaves op (leaf # rest) =
     (case op leaf of
        Inl e \<Rightarrow> Inl e
      | Inr leaf' \<Rightarrow> (case forLeaves op rest of Inl e \<Rightarrow> Inl e | Inr rest' \<Rightarrow> Inr (leaf' # rest')))"

section \<open>PointDelete.h: deleteFromGroups\<close>

text \<open>
  Modelled from the spec: \<^verbatim>\<open>agents::pruneInactive\<close> and \<^verbatim>\<open>dropGroups\<close> (\<^verbatim>\<open>Prune.h\<close> and
  \<^verbatim>\<open>PointGroup.h\<close> are not part of the sources). Pruning removes the leaf nodes
  without an active voxel; dropping groups removes their names from the descriptor of
  every leaf, and with them the membership of the points.
\<close>

definition pruneInactive :: "PointDataTree \<Rightarrow> PointDataTree" where
  "pruneInactive tree = filter (\<lambda>leaf. list_ex (\<lambda>b. b) (valueOn leaf)) tree"

definition dropGroups :: "PointDataTree \<Rightarrow> string list \<Rightarrow> PointDataTree" where
  "dropGroups tree groups =
     map (\<lambda>leaf. leaf\<lparr>groupMap := filter (\<lambda>g. g \<notin> set groups) (groupMap leaf),
                      rows := map (\<lambda>p. p\<lparr>memberOf := filter (\<lambda>g. g \<notin> set groups) (memberOf p)\<rparr>)
                                  (rows leaf)\<rparr>) tree"

text \<open>
  The parameter \<^verbatim>\<open>drop\<close> of the source is written \<^verbatim>\<open>drop'\<close>.
\<close>

definition deleteFromGroups :: "(AttributeArray \<Rightarrow> nat \<Rightarrow> AttributeArray) \<Rightarrow> PointDataTree
    \<Rightarrow> string list \<Rightarrow> bool \<Rightarrow> bool \<Rightarrow> point_error + PointDataTree" where
  "deleteFromGroups create pointTree groups invert drop' =
     (case pointTree of
        [] \<Rightarrow> Inr pointTree
      | leafIter # rest \<Rightarrow>
          let descriptor = groupMap leafIter;
              availableGroups = filter (hasGroup descriptor) groups
          in if availableGroups = [] then Inr pointTree
             else
               let f = (if invert then newMultiGroupFilter groups [] descriptor
                        else newMultiGroupFilter [] groups descriptor)
               in case forLeaves (deleteByFilterOp create f) pointTree of
                    Inl e \<Rightarrow> Inl e
                  | Inr deleted \<Rightarrow>
                      let pruned = pruneInactive deleted
                      in if drop' \<and> \<not> invert then Inr (dropGroups pruned availableGroups)
                         else Inr pruned)"

text \<open>
  \<^verbatim>\<open>pointCount(tree)\<close> of the unit test: the sum of the last values of the leaves.
\<close>

definition pointCount :: "PointDataTree \<Rightarrow> nat" where
  "pointCount tree = sum_list (map getLastValue tree)"

section \<open>TestPointDelete.cc: the six points\<close>

text \<open>
  The grid of \<^verbatim>\<open>testDeleteFromGroups\<close>: voxel size 1, points 0 to 3 at \<^verbatim>\<open>(1,1,1)\<close>,
  \<^verbatim>\<open>(1,2,1)\<close>, \<^verbatim>\<open>(2,1,1)\<close>, \<^verbatim>\<open>(2,2,1)\<close> in the leaf at the origin (voxel offsets 73,
  81, 137, 145) and points 4 and 5 at \<^verbatim>\<open>(100,100,100)\<close>, \<^verbatim>\<open>(100,101,100)\<close> in the leaf
  at \<^verbatim>\<open>(96,96,96)\<close> (voxel offsets 292, 300). The groups \<^verbatim>\<open>test1\<close> to \<^verbatim>\<open>test4\<close> are
  appended; \<^verbatim>\<open>test1\<close> holds the points 0 and 5, \<^verbatim>\<open>test2\<close> the points 2, 3 and 5.
  \<^verbatim>\<open>pointLeaf voxels ps\<close> is the leaf of 512 voxels whose points \<^verbatim>\<open>ps\<close> lie in the
  voxels \<^verbatim>\<open>voxels\<close>, one voxel offset per point.
\<close>

definition pointOffsets :: "nat list \<Rightarrow> nat list" where
  "pointOffsets voxels = map (\<lambda>v. length (filter (\<lambda>u. u \<le> v) voxels)) [0..<512]"

definition pointLeaf :: "nat list \<Rightarrow> PointRow list \<Rightarrow> PointLeaf" where
  "pointLeaf voxels ps =
     \<lparr>offsets = pointOffsets voxels,
      valueOn = map (\<lambda>v. v \<in> set voxels) [0..<512],
      rows = ps,
      attributeArrays = [\<lparr>hasConstantStride = True, stride = 1\<rparr>, \<lparr>hasConstantStride = True, stride = 1\<rparr>],
      groupMap = [''test1'', ''test2'', ''test3'', ''test4'']\<rparr>"

definition testTree :: PointDataTree where
  "testTree =
     [pointLeaf [73, 81, 137, 145]
        [\<lparr>pointId = 0, memberOf = [''test1'']\<rparr>, \<lparr>pointId = 1, memberOf = []\<rparr>,
         \<lparr>pointId = 2, memberOf = [''test2'']\<rparr>, \<lparr>pointId = 3, memberOf = [''test2'']\<rparr>],
      pointLeaf [292, 300]
        [\<lparr>pointId = 4, memberOf = []\<rparr>, \<lparr>pointId = 5, memberOf = [''test1'', ''test2'']\<rparr>]]"

section \<open>PointDelete.h: what a deletion keeps\<close>

text \<open>
  A leaf is well formed when its offsets are sorted, the last offset is the number of
  rows, and a voxel is on exactly when it holds a point. \<^verbatim>\<open>keptBelow leaf f b\<close> are
  the indices below \<^verbatim>\<open>b\<close> that pass the filter; \<^verbatim>\<open>allRows\<close> are the points of a tree
  in leaf order. \<^verbatim>\<open>sameLayoutAs create\<close> is the assumption on the constructor of the
  new attribute set: a new array has the stride of the existing one. \<^verbatim>\<open>sameLayout\<close>
  is such a constructor.
\<close>

definition keptBelow :: "PointLeaf \<Rightarrow> MultiGroupFilter \<Rightarrow> nat \<Rightarrow> nat list" where
  "keptBelow leaf f b =
     filter (\<lambda>i. i < length (rows leaf) \<and> valid f (rows leaf ! i)) [0..<b]"

definition wfLeaf :: "PointLeaf \<Rightarrow> bool" where
  "wfLeaf leaf \<longleftrightarrow>
     offsets leaf \<noteq> [] \<and> sorted (offsets leaf) \<and> last (offsets leaf) = length (rows leaf)
     \<and> valueOn leaf = map (\<lambda>v. voxelStart leaf v < offsets leaf ! v) [0..<length (offsets leaf)]"

definition sameLayoutAs :: "(AttributeArray \<Rightarrow> nat \<Rightarrow> AttributeArray) \<Rightarrow> bool" where
  "sameLayoutAs create \<longleftrightarrow>
     (\<forall>a n. hasConstantStride (create a n) = hasConstantStride a \<and> stride (create a n) = stride a)"

definition allRows :: "PointDataTree \<Rightarrow> PointRow list" where
  "allRows tree = concat (map rows tree)"

definition sameLayout :: "AttributeArray \<Rightarrow> nat \<Rightarrow> AttributeArray" where
  "sameLayout a n = a"

section \<open>The morphology engine\<close>

text \<open>
  Modelled from the spec: \<^verbatim>\<open>agents::dilateVoxels\<close>, \<^verbatim>\<open>agents::dilateActiveValues\<close> and
  \<^verbatim>\<open>agents::erodeVoxels\<close> (\<^verbatim>\<open>Morphology.h\<close> is not part of the sources; the unit tests
  call them). A tree is modelled by the set of the coordinates of its active voxels.
  One dilation step ORs the active mask with itself shifted by every offset of the
  connectivity: the 6 face offsets, with edges the 12 offsets with two non-zero
  components, with vertices the 8 corner offsets. Bits shifted out of a leaf activate
  voxels of the neighbour leaf, so the step acts on coordinates. A radius repeats the
  step. One erosion step keeps a voxel when all its six face neighbours were active in
  the input generation. The unit tests erode with \<^verbatim>\<open>NN_FACE\<close> only, and leave out the
  erosions with \<^verbatim>\<open>NN_FACE_EDGE\<close> and \<^verbatim>\<open>NN_FACE_EDGE_VERTEX\<close> as not implemented
  (\<^verbatim>\<open>TestAgents.cc\<close>, \<^verbatim>\<open>erode18\<close> and \<^verbatim>\<open>erode26\<close>): \<^verbatim>\<open>erodeVoxels\<close> has a result for
  \<^verbatim>\<open>NN_FACE\<close> and none for the two other connectivities. On a tree without active tiles
  \<^verbatim>\<open>dilateActiveValues\<close> activates the same voxels as \<^verbatim>\<open>dilateVoxels\<close>; the tile
  policies are outside the model.
\<close>

datatype NearestNeighbors = NN_FACE | NN_FACE_EDGE | NN_FACE_EDGE_VERTEX

definition faceOffsets :: "Coord list" where
  "faceOffsets = [(-1, 0, 0), (1, 0, 0), (0, -1, 0), (0, 1, 0), (0, 0, -1), (0, 0, 1)]"

definition edgeOffsets :: "Coord list" where
  "edgeOffsets =
     [(-1, -1, 0), (-1, 1, 0), (1, -1, 0), (1, 1, 0),
      (-1, 0, -1), (-1, 0, 1), (1, 0, -1), (1, 0, 1),
      (0, -1, -1), (0, -1, 1), (0, 1, -1), (0, 1, 1)]"

definition vertexOffsets :: "Coord list" where
  "vertexOffsets =
     [(-1, -1, -1), (-1, -1, 1), (-1, 1, -1), (-1, 1, 1),
      (1, -1, -1), (1, -1, 1), (1, 1, -1), (1, 1, 1)]"

fun neighborOffsets :: "NearestNeighbors \<Rightarrow> Coord list" where
  "neighborOffsets NN_FACE = faceOffsets"
| "neighborOffsets NN_FACE_EDGE = faceOffsets @ edgeOffsets"
| "neighborOffsets NN_FACE_EDGE_VERTEX = faceOffsets @ edgeOffsets @ vertexOffsets"

definition shiftMask :: "Coord \<Rightarrow> Coord set \<Rightarrow> Coord set" where
  "shiftMask d A = (\<lambda>p. offsetBy p d) ` A"

definition dilateStep :: "NearestNeighbors \<Rightarrow> Coord set \<Rightarrow> Coord set" where
  "dilateStep nn A = fold (\<lambda>d acc. acc \<union> shiftMask d A) (neighborOffsets nn) A"

definition erodeStep :: "Coord set \<Rightarrow> Coord set" where
  "erodeStep A = Set.filter (\<lambda>p. list_all (\<lambda>d. offsetBy p d \<in> A) faceOffsets) A"

definition dilateVoxels :: "Coord set \<Rightarrow> nat \<Rightarrow> NearestNeighbors \<Rightarrow> Coord set" where
  "dilateVoxels A iterations nn = ((dilateStep nn) ^^ iterations) A"

definition dilateActiveValues :: "Coord set \<Rightarrow> nat \<Rightarrow> NearestNeighbors \<Rightarrow> Coord set" where
  "dilateActiveValues A iterations nn = ((dilateStep nn) ^^ iterations) A"

definition erodeVoxels :: "Coord set \<Rightarrow> nat \<Rightarrow> NearestNeighbors \<Rightarrow> Coord set option" where
  "erodeVoxels A iterations nn =
     (case nn of
        NN_FACE \<Rightarrow> Some ((erodeStep ^^ iterations) A)
      | NN_FACE_EDGE \<Rightarrow> None
      | NN_FACE_EDGE_VERTEX \<Rightarrow> None)"

definition activeVoxelCount :: "Coord set \<Rightarrow> nat" where
  "activeVoxelCount A = card A"

text \<open>
  The oracle of the unit tests: the Manhattan distance to the seed, inside the block of
  3 x 3 x 3 voxels around it.
\<close>

definition manhattan :: "Coord \<Rightarrow> Coord \<Rightarrow> int" where
  "manhattan p q =
     (case p of (x, y, z) \<Rightarrow> case q of (u, v, w) \<Rightarrow> \<bar>x - u\<bar> + \<bar>y - v\<bar> + \<bar>z - w\<bar>)"

definition inBlock :: "Coord \<Rightarrow> Coord \<Rightarrow> bool" where
  "inBlock p q =
     (case p of (x, y, z) \<Rightarrow> case q of (u, v, w) \<Rightarrow> \<bar>x - u\<bar> \<le> 1 \<and> \<bar>y - v\<bar> \<le> 1 \<and> \<bar>z - w\<bar> \<le> 1)"

fun maxDistance :: "NearestNeighbors \<Rightarrow> int" where
  "maxDistance NN_FACE = 1"
| "maxDistance NN_FACE_EDGE = 2"
| "maxDistance NN_FACE_EDGE_VERTEX = 3"

text \<open>
  \<^verbatim>\<open>ballCount n\<close> counts the voxels at Manhattan distance at most \<^verbatim>\<open>n\<close> from a seed,
  slice by slice. \<^verbatim>\<open>isolated\<close> says that no two active voxels are adjacent under the
  connectivity. \<^verbatim>\<open>sixAroundOrigin\<close> are the six face neighbours of the origin, without
  the origin.
\<close>

definition ballCount :: "int \<Rightarrow> nat" where
  "ballCount n = (\<Sum>i \<in> {- n..n}. \<Sum>j \<in> {- (n - \<bar>i\<bar>)..n - \<bar>i\<bar>}. nat (2 * (n - \<bar>i\<bar> - \<bar>j\<bar>) + 1))"

definition isolated :: "NearestNeighbors \<Rightarrow> Coord set \<Rightarrow> bool" where
  "isolated nn A \<longleftrightarrow> (\<forall>p \<in> A. list_all (\<lambda>d. offsetBy p d \<notin> A) (neighborOffsets nn))"

definition sixAroundOrigin :: "Coord set" where
  "sixAroundOrigin = {(-1, 0, 0), (1, 0, 0), (0, -1, 0), (0, 1, 0), (0, 0, -1), (0, 0, 1)}"

text \<open>
  \<^verbatim>\<open>separated r A\<close>: any two distinct active voxels are at Manhattan distance more
  than \<^verbatim>\<open>3 * r\<close>. \<^verbatim>\<open>fourAtDistanceThree\<close> are four voxels around the origin, any two of
  them 3 or 4 apart.
\<close>

definition separated :: "nat \<Rightarrow> Coord set \<Rightarrow> bool" where
  "separated r A \<longleftrightarrow> (\<forall>a \<in> A. \<forall>b \<in> A. a = b \<or> 3 * int r < manhattan a b)"

definition fourAtDistanceThree :: "Coord set" where
  "fourAtDistanceThree = {(-1, 0, 0), (1, 1, 0), (0, -1, 1), (0, 0, -2)}"

chapter \<open>Properties\<close>

section \<open>Filter.h: the mask range\<close>

text \<open>
  C9. \<^verbatim>\<open>Filter::setMaskRange(min, max)\<close> requires \<^verbatim>\<open>min < max\<close>. When \<^verbatim>\<open>min < max\<close>
  it returns normally and the mask range is \<^verbatim>\<open>[min, max]\<close>, every other member
  unchanged. Otherwise it raises \<^verbatim>\<open>ValueError\<close> and the filter, with its previously
  configured mask range, is exactly as before the call: the violation is not corrected.
\<close>

theorem setMaskRange_spec:
  "(mn < mx \<longrightarrow>
      setMaskRange mn mx f = (None, f\<lparr>mMinMask := mn, mMaxMask := mx\<rparr>)
      \<and> minMask (snd (setMaskRange mn mx f)) = mn
      \<and> maxMask (snd (setMaskRange mn mx f)) = mx)
   \<and> (\<not> mn < mx \<longrightarrow>
      setMaskRange mn mx f = (Some ValueError, f)
      \<and> minMask (snd (setMaskRange mn mx f)) = minMask f
      \<and> maxMask (snd (setMaskRange mn mx f)) = maxMask f)"
  by (simp add: setMaskRange_def minMask_def maxMask_def)

theorem setMaskRange_spec_witness:
  "(0 :: rat) < 2
   \<and> setMaskRange 0 2 (newFilter exampleGrid None)
       = (None, (newFilter exampleGrid None)\<lparr>mMinMask := 0, mMaxMask := 2\<rparr>)
   \<and> maxMask (snd (setMaskRange 0 2 (newFilter exampleGrid None))) = 2
   \<and> \<not> (3 :: rat) < 3
   \<and> fst (setMaskRange 3 3 (newFilter exampleGrid None)) = Some ValueError
   \<and> minMask (snd (setMaskRange 3 3 (newFilter exampleGrid None))) = 0
   \<and> maxMask (snd (setMaskRange 3 3 (newFilter exampleGrid None))) = 1"
  using setMaskRange_spec [of 0 2 "newFilter exampleGrid None"]
    setMaskRange_spec [of 3 3 "newFilter exampleGrid None"]
  by (simp add: newFilter_def minMask_def maxMask_def)

section \<open>Filter.h: only values change, not the topology\<close>

text \<open>
  The frame relation is reflexive and transitive; a fold of writes leaves every
  position it does not visit as it was; each private method and the buffer swap keep
  the invariant of the passes, and so do the loops of the public methods, which always
  return.
\<close>

lemma leafFrame_refl: "leafFrame l l"
  by (simp add: leafFrame_def)

lemma leafFrame_trans: "leafFrame a b \<Longrightarrow> leafFrame b c \<Longrightarrow> leafFrame a c"
  by (simp add: leafFrame_def)

lemma valuesOnlyModified_refl: "valuesOnlyModified t t"
  by (simp add: valuesOnlyModified_def list_all2_refl leafFrame_refl)

lemma valuesOnlyModified_trans:
  "valuesOnlyModified a b \<Longrightarrow> valuesOnlyModified b c \<Longrightarrow> valuesOnlyModified a c"
  unfolding valuesOnlyModified_def
  by (auto elim: list_all2_trans[rotated] intro: leafFrame_trans)

lemma fold_frame:
  assumes "\<And>p b. p \<in> set xs \<Longrightarrow> h p b q = b q"
  shows "fold h xs b0 q = b0 q"
  using assms by (induction xs arbitrary: b0) auto

lemma set_onOffsets: "set (onOffsets l) = {pos. pos < NUM_VALUES \<and> valueMask l pos}"
  by (auto simp: onOffsets_def)

lemma doBoxLeaf_frame:
  "\<not> (q < NUM_VALUES \<and> valueMask leaf q) \<Longrightarrow> doBoxLeaf f axis w leaf b1 q = b1 q"
  unfolding doBoxLeaf_def
  by (cases "mMask f") (auto intro!: fold_frame simp: set_onOffsets Let_def split: prod.splits)

lemma doMedianLeaf_frame:
  "\<not> (q < NUM_VALUES \<and> valueMask leaf q) \<Longrightarrow> doMedianLeaf f w leaf b1 q = b1 q"
  unfolding doMedianLeaf_def
  by (cases "mMask f") (auto intro!: fold_frame simp: set_onOffsets Let_def split: prod.splits)

lemma passInv_doBox: "passInv t0 s \<Longrightarrow> passInv t0 (doBox axis w s)"
  unfolding passInv_def doBox_def
  by (cases s) (auto simp: list_all2_conv_all_nth auxSynced_def doBoxLeaf_frame)

lemma passInv_doMedian: "passInv t0 s \<Longrightarrow> passInv t0 (doMedian w s)"
  unfolding passInv_def doMedian_def
  by (cases s) (auto simp: list_all2_conv_all_nth auxSynced_def doMedianLeaf_frame)

lemma passInv_swap:
  assumes "passInv t0 (f, lm)" and "swapLeafBuffer 1 (mGrid f, lm) = (t, lm')"
  shows "passInv t0 (f\<lparr>mGrid := t\<rparr>, lm')"
proof -
  from assms(1) have a: "valuesOnlyModified t0 (mGrid f)" "mAuxBuffersPerLeaf lm = 1"
    "list_all2 auxSynced (leafs (mGrid f)) (mAuxBuffers lm)"
    by (simp_all add: passInv_def)
  from assms(2) a(2) have t: "t = (mGrid f)\<lparr>leafs := map (\<lambda>(l, aux). l\<lparr>buffer := aux ! 0\<rparr>)
                          (zip (leafs (mGrid f)) (mAuxBuffers lm))\<rparr>"
    and lm': "lm' = lm\<lparr>mAuxBuffers := map (\<lambda>(l, aux). aux[0 := buffer l])
                                (zip (leafs (mGrid f)) (mAuxBuffers lm))\<rparr>"
    by (auto simp: swapLeafBuffer_def)
  have "valuesOnlyModified (mGrid f) t"
    using a(3) unfolding t valuesOnlyModified_def
    by (auto simp: list_all2_conv_all_nth leafFrame_def auxSynced_def)
  with a(1) have 1: "valuesOnlyModified t0 t" by (rule valuesOnlyModified_trans)
  have 2: "list_all2 auxSynced (leafs t) (mAuxBuffers lm')"
    using a(3) unfolding t lm'
    by (auto simp: list_all2_conv_all_nth auxSynced_def)
  show ?thesis using 1 2 a(2) by (simp add: passInv_def lm')
qed

lemma passInv_mTask: "passInv t0 (f\<lparr>mTask := x\<rparr>, lm) = passInv t0 (f, lm)"
  by (simp add: passInv_def)

lemma passInv_runTask:
  "passInv t0 s \<Longrightarrow> \<forall>v. task \<noteq> DoOffset v \<Longrightarrow> passInv t0 (runTask task s)"
  by (cases task) (simp_all add: doBoxX_def doBoxY_def doBoxZ_def passInv_doBox passInv_doMedian)

lemma cook_passInv:
  assumes "passInv t0 s" and "mTask (fst s) = Some task" and "\<forall>v. task \<noteq> DoOffset v"
  shows "\<exists>s'. cook s = Inr s' \<and> passInv t0 s' \<and> mTask (fst s') = mTask (fst s)
     \<and> mInterrupter (fst s') = mInterrupter (fst s)"
proof -
  obtain f lm where r: "runTask task s = (f, lm)" by (cases "runTask task s")
  have i: "passInv t0 (f, lm)" using passInv_runTask[OF assms(1,3)] r by simp
  obtain t lm' where sw: "swapLeafBuffer 1 (mGrid f, lm) = (t, lm')"
    by (cases "swapLeafBuffer 1 (mGrid f, lm)")
  have c: "cook s = Inr (f\<lparr>mGrid := t\<rparr>, lm')"
    using assms(2) r sw by (simp add: cook_def parallel_for_def runRange_def)
  have ff: "fst (runTask task s) = fst s"
    by (cases task; cases s)
       (simp_all add: doBoxX_def doBoxY_def doBoxZ_def doBox_def doMedian_def assms(3))
  show ?thesis using c passInv_swap[OF i sw] ff r by auto
qed

lemma cookTask_passInv:
  assumes "passInv t0 s" and "\<forall>v. task \<noteq> DoOffset v"
  shows "\<exists>s'. cookTask task s = Inr s' \<and> passInv t0 s'
     \<and> mInterrupter (fst s') = mInterrupter (fst s)"
proof -
  obtain f lm where s: "s = (f, lm)" by (cases s)
  have "passInv t0 (f\<lparr>mTask := Some task\<rparr>, lm)" using assms(1) s by (simp add: passInv_mTask)
  from cook_passInv[OF this _ assms(2)] show ?thesis
    by (auto simp: cookTask_def s)
qed

lemma boxPasses_passInv:
  assumes "passInv t0 s"
  shows "\<exists>s'. boxPasses w s = Inr s' \<and> passInv t0 s'
     \<and> mInterrupter (fst s') = mInterrupter (fst s)"
proof -
  obtain s1 where 1: "cookTask (DoBoxX w) s = Inr s1" "passInv t0 s1"
      "mInterrupter (fst s1) = mInterrupter (fst s)"
    using cookTask_passInv[OF assms, of "DoBoxX w"] by auto
  obtain s2 where 2: "cookTask (DoBoxY w) s1 = Inr s2" "passInv t0 s2"
      "mInterrupter (fst s2) = mInterrupter (fst s1)"
    using cookTask_passInv[OF 1(2), of "DoBoxY w"] by auto
  obtain s3 where 3: "cookTask (DoBoxZ w) s2 = Inr s3" "passInv t0 s3"
      "mInterrupter (fst s3) = mInterrupter (fst s2)"
    using cookTask_passInv[OF 2(2), of "DoBoxZ w"] by auto
  show ?thesis using 1 2 3 by (simp add: boxPasses_def andThen_def)
qed

lemma meanLoop_passInv:
  "passInv t0 s \<Longrightarrow> \<exists>s'. meanLoop n w s = Inr s' \<and> passInv t0 s'"
proof (induction n arbitrary: s)
  case 0
  then show ?case by simp
next
  case (Suc n)
  obtain s1 where 1: "boxPasses w s = Inr s1" "passInv t0 s1"
    using boxPasses_passInv[OF Suc.prems, of w] by blast
  from Suc.IH[OF 1(2)] 1(1) Suc.prems show ?case
    by (cases "wasInterrupted (fst s)") (simp_all add: andThen_def)
qed

lemma gaussianInner_passInv:
  "passInv t0 s \<Longrightarrow> \<exists>s'. gaussianInner n w s = Inr s' \<and> passInv t0 s'"
proof (induction n arbitrary: s)
  case 0
  then show ?case by simp
next
  case (Suc n)
  obtain s1 where 1: "boxPasses w s = Inr s1" "passInv t0 s1"
    using boxPasses_passInv[OF Suc.prems, of w] by blast
  from Suc.IH[OF 1(2)] 1(1) Suc.prems show ?case
    by (cases "wasInterrupted (fst s)") (simp_all add: andThen_def)
qed

lemma gaussianLoop_passInv:
  "passInv t0 s \<Longrightarrow> \<exists>s'. gaussianLoop n w s = Inr s' \<and> passInv t0 s'"
proof (induction n arbitrary: s)
  case 0
  then show ?case by simp
next
  case (Suc n)
  obtain s1 where 1: "gaussianInner 4 w s = Inr s1" "passInv t0 s1"
    using gaussianInner_passInv[OF Suc.prems] by blast
  from Suc.IH[OF 1(2)] 1(1) show ?case
    by (auto simp: andThen_def)
qed

lemma medianLoop_passInv:
  "passInv t0 s \<Longrightarrow> mTask (fst s) = Some (DoMedian w) \<Longrightarrow>
   \<exists>s'. medianLoop n s = Inr s' \<and> passInv t0 s'"
proof (induction n arbitrary: s)
  case 0
  then show ?case by simp
next
  case (Suc n)
  obtain s1 where 1: "cook s = Inr s1" "passInv t0 s1" "mTask (fst s1) = mTask (fst s)"
    using cook_passInv[OF Suc.prems(1,2)] by auto
  from Suc.IH[OF 1(2)] 1 Suc.prems show ?case
    by (cases "wasInterrupted (fst s)") (simp_all add: andThen_def)
qed

lemma passInv_init:
  "passInv (mGrid f) (f\<lparr>mMask := msk\<rparr>, newLeafManager (mGrid f) 1)"
  by (simp add: passInv_def valuesOnlyModified_refl newLeafManager_def
      list_all2_conv_all_nth auxSynced_def)

lemma mean_valuesOnlyModified:
  "\<exists>f'. mean width iterations msk f = Inr f' \<and> valuesOnlyModified (mGrid f) (mGrid f')"
  using meanLoop_passInv[OF passInv_init[of f msk], where n="nat iterations" and w="max 1 width"]
  by (auto simp: mean_def Let_def andThen_def passInv_def)

lemma gaussian_valuesOnlyModified:
  "\<exists>f'. gaussian width iterations msk f = Inr f' \<and> valuesOnlyModified (mGrid f) (mGrid f')"
  using gaussianLoop_passInv[OF passInv_init[of f msk], where n="nat iterations" and w="max 1 width"]
  by (auto simp: gaussian_def Let_def andThen_def passInv_def)

lemma median_valuesOnlyModified:
  "\<exists>f'. median width iterations msk f = Inr f' \<and> valuesOnlyModified (mGrid f) (mGrid f')"
proof -
  have "passInv (mGrid f) (f\<lparr>mMask := msk, mTask := Some (DoMedian (max 1 width))\<rparr>,
      newLeafManager (mGrid f) 1)"
    using passInv_init[of f msk] by (simp add: passInv_def)
  from medianLoop_passInv[OF this, where w="max 1 width" and n="nat iterations"] show ?thesis
    by (auto simp: median_def Let_def andThen_def passInv_def)
qed

lemma fold_leaf_frame:
  assumes "\<And>p l. p \<in> set xs \<Longrightarrow>
      origin (h p l) = origin l \<and> valueMask (h p l) = valueMask l
      \<and> (\<forall>q. q \<noteq> p \<longrightarrow> buffer (h p l) q = buffer l q)"
  shows "origin (fold h xs l0) = origin l0 \<and> valueMask (fold h xs l0) = valueMask l0
      \<and> (\<forall>q. q \<notin> set xs \<longrightarrow> buffer (fold h xs l0) q = buffer l0 q)"
  using assms
proof (induction xs arbitrary: l0)
  case Nil
  then show ?case by simp
next
  case (Cons x xs)
  have step: "origin (h x l0) = origin l0 \<and> valueMask (h x l0) = valueMask l0
      \<and> (\<forall>q. q \<noteq> x \<longrightarrow> buffer (h x l0) q = buffer l0 q)"
    using Cons.prems by simp
  have rest: "origin (fold h xs (h x l0)) = origin (h x l0)
      \<and> valueMask (fold h xs (h x l0)) = valueMask (h x l0)
      \<and> (\<forall>q. q \<notin> set xs \<longrightarrow> buffer (fold h xs (h x l0)) q = buffer (h x l0) q)"
    using Cons.prems by (intro Cons.IH) simp
  from step rest show ?case by simp
qed

lemma doOffsetLeaf_frame: "leafFrame l (doOffsetLeaf f v l)"
proof (cases "mMask f")
  case None
  have "origin (doOffsetLeaf f v l) = origin l \<and> valueMask (doOffsetLeaf f v l) = valueMask l
      \<and> (\<forall>q. q \<notin> set (onOffsets l) \<longrightarrow> buffer (doOffsetLeaf f v l) q = buffer l q)"
    unfolding doOffsetLeaf_def None option.case
    by (rule fold_leaf_frame) simp
  then show ?thesis by (simp add: leafFrame_def set_onOffsets)
next
  case (Some alpha)
  have "origin (doOffsetLeaf f v l) = origin l \<and> valueMask (doOffsetLeaf f v l) = valueMask l
      \<and> (\<forall>q. q \<notin> set (onOffsets l) \<longrightarrow> buffer (doOffsetLeaf f v l) q = buffer l q)"
    unfolding doOffsetLeaf_def Some option.case
    by (rule fold_leaf_frame) (simp split: prod.splits)
  then show ?thesis by (simp add: leafFrame_def set_onOffsets)
qed

lemma offset_valuesOnlyModified:
  "\<exists>f'. offset v msk f = Inr f' \<and> valuesOnlyModified (mGrid f) (mGrid f')"
  by (simp add: offset_def Let_def cookTask_def cook_def parallel_for_def runRange_def
      doOffset_def swapLeafBuffer_def newLeafManager_def andThen_def
      valuesOnlyModified_def list_all2_conv_all_nth doOffsetLeaf_frame)

text \<open>
  What the frame relation means for the accessor: the active state of every coordinate
  and the value of every inactive one are the same in both trees.
\<close>

lemma find_leafFrame:
  "list_all2 leafFrame ls ls' \<Longrightarrow>
   (find (\<lambda>l. origin l = c) ls = None \<and> find (\<lambda>l. origin l = c) ls' = None)
   \<or> (\<exists>l l'. find (\<lambda>l. origin l = c) ls = Some l \<and> find (\<lambda>l. origin l = c) ls' = Some l'
          \<and> leafFrame l l')"
proof (induction rule: list_all2_induct)
  case Nil
  then show ?case by simp
next
  case (Cons x xs y ys)
  then show ?case by (auto simp: leafFrame_def)
qed

lemma coordToOffset_less: "coordToOffset xyz < NUM_VALUES"
proof -
  obtain x y z where xyz: "xyz = (x, y, z)" by (cases xyz)
  have "0 \<le> x mod 8" "x mod 8 < 8" "0 \<le> y mod 8" "y mod 8 < 8" "0 \<le> z mod 8" "z mod 8 < 8"
    by simp_all
  then show ?thesis
    by (simp add: coordToOffset_def xyz DIM_def LOG2DIM_def NUM_VALUES_def nat_less_iff)
qed

lemma valuesOnlyModified_isValueOn:
  assumes "valuesOnlyModified t t'"
  shows "isValueOn t' xyz = isValueOn t xyz"
  using find_leafFrame[of "leafs t" "leafs t'" "leafOrigin xyz"] assms
  by (auto simp: valuesOnlyModified_def isValueOn_def probeLeaf_def leafFrame_def)

lemma valuesOnlyModified_getValue:
  assumes "valuesOnlyModified t t'" and "\<not> isValueOn t xyz"
  shows "getValue t' xyz = getValue t xyz"
  using find_leafFrame[of "leafs t" "leafs t'" "leafOrigin xyz"] assms
    coordToOffset_less[of xyz]
  by (auto simp: valuesOnlyModified_def isValueOn_def getValue_def probeLeaf_def leafFrame_def
      split: option.splits)

lemma valuesOnlyModified_origins:
  "valuesOnlyModified t t' \<Longrightarrow> map origin (leafs t') = map origin (leafs t)"
  by (auto simp: valuesOnlyModified_def list_all2_conv_all_nth leafFrame_def intro!: nth_equalityI)

lemma valuesOnlyModified_masks:
  "valuesOnlyModified t t' \<Longrightarrow> map valueMask (leafs t') = map valueMask (leafs t)"
  by (auto simp: valuesOnlyModified_def list_all2_conv_all_nth leafFrame_def intro!: nth_equalityI)

lemma valuesOnlyModified_sameTopology:
  "valuesOnlyModified t t' \<Longrightarrow> sameTopology t t' \<and> inactiveValuesKept t t'"
  unfolding sameTopology_def inactiveValuesKept_def
  using valuesOnlyModified_isValueOn[of t t'] valuesOnlyModified_getValue[of t t']
    valuesOnlyModified_origins[of t t'] valuesOnlyModified_masks[of t t']
  by (simp add: valuesOnlyModified_def)

lemma exampleGrid_on: "isValueOn exampleGrid (0, 1, 0)" "\<not> isValueOn exampleGrid (1, 1, 1)"
  "getValue exampleGrid (1, 1, 1) = 0"
  by (simp_all add: isValueOn_def getValue_def probeLeaf_def exampleGrid_def exampleLeaf_def
      leafOrigin_def coordToOffset_def DIM_def LOG2DIM_def)

text \<open>
  C10. For every grid and every call to \<^verbatim>\<open>Filter::mean\<close>, \<^verbatim>\<open>Filter::gaussian\<close>,
  \<^verbatim>\<open>Filter::median\<close> or \<^verbatim>\<open>Filter::offset\<close>, the call returns and the topology of
  the grid is unchanged: the same leaf nodes in the same order, the same active mask in
  each leaf, the same tiles and background, hence the same set of active voxels. Only
  values stored at active voxels are modified: every voxel that is not active reads
  the same value after the call as before it.
\<close>

theorem filter_topology_unchanged:
  "(\<exists>f'. mean width iterations msk f = Inr f'
        \<and> sameTopology (mGrid f) (mGrid f') \<and> inactiveValuesKept (mGrid f) (mGrid f'))
   \<and> (\<exists>f'. gaussian width iterations msk f = Inr f'
        \<and> sameTopology (mGrid f) (mGrid f') \<and> inactiveValuesKept (mGrid f) (mGrid f'))
   \<and> (\<exists>f'. median width iterations msk f = Inr f'
        \<and> sameTopology (mGrid f) (mGrid f') \<and> inactiveValuesKept (mGrid f) (mGrid f'))
   \<and> (\<exists>f'. offset v msk f = Inr f'
        \<and> sameTopology (mGrid f) (mGrid f') \<and> inactiveValuesKept (mGrid f) (mGrid f'))"
  using mean_valuesOnlyModified[of width iterations msk f]
    gaussian_valuesOnlyModified[of width iterations msk f]
    median_valuesOnlyModified[of width iterations msk f]
    offset_valuesOnlyModified[of v msk f]
  by (blast dest: valuesOnlyModified_sameTopology)

theorem filter_topology_unchanged_witness:
  "\<exists>f'. mean 1 2 None exampleFilter = Inr f'
      \<and> map origin (leafs (mGrid f')) = [(0, 0, 0)]
      \<and> isValueOn (mGrid f') (0, 1, 0)
      \<and> \<not> isValueOn (mGrid f') (1, 1, 1)
      \<and> getValue (mGrid f') (1, 1, 1) = 0"
proof -
  from filter_topology_unchanged[of 1 2 None exampleFilter]
  obtain f' where f': "mean 1 2 None exampleFilter = Inr f'"
    "sameTopology (mGrid exampleFilter) (mGrid f')"
    "inactiveValuesKept (mGrid exampleFilter) (mGrid f')"
    by blast
  have g: "mGrid exampleFilter = exampleGrid" by (simp add: exampleFilter_def newFilter_def)
  have "map origin (leafs (mGrid f')) = [(0, 0, 0)]"
    using f'(2) by (simp add: g sameTopology_def exampleGrid_def exampleLeaf_def)
  moreover have "isValueOn (mGrid f') (0, 1, 0)" "\<not> isValueOn (mGrid f') (1, 1, 1)"
    using f'(2) exampleGrid_on by (simp_all add: g sameTopology_def)
  moreover have "getValue (mGrid f') (1, 1, 1) = 0"
    using f'(3) exampleGrid_on by (simp add: g inactiveValuesKept_def)
  ultimately show ?thesis using f'(1) by (intro exI[of _ f']) simp
qed

section \<open>Filter.h: the axes of the box passes\<close>

text \<open>
  A cooked task is a box pass along the axis that the source binds it to: \<^verbatim>\<open>DoBoxX\<close>
  along 0, \<^verbatim>\<open>DoBoxY\<close> along 2 and \<^verbatim>\<open>DoBoxZ\<close> along 1.
\<close>

lemma fold_update_pointwise:
  "fold (\<lambda>pos b. b(pos := g pos)) xs b0 = (\<lambda>pos. if pos \<in> set xs then g pos else b0 pos)"
  by (induction xs arbitrary: b0) (auto simp: fun_eq_iff)

lemma doBoxLeaf_unmasked:
  "mMask f = None \<Longrightarrow> doBoxLeaf f axis w leaf b1 =
     (\<lambda>pos. if pos < NUM_VALUES \<and> valueMask leaf pos
            then Avg (mGrid f) axis w (getCoord leaf pos) else b1 pos)"
  by (simp add: doBoxLeaf_def fold_update_pointwise set_onOffsets)

lemma cookTask_DoBoxX:
  "cookTask (DoBoxX w) (f, lm) = Inr (boxPassAlong 0 w (f\<lparr>mTask := Some (DoBoxX w)\<rparr>, lm))"
  by (simp add: cookTask_def cook_def parallel_for_def runRange_def doBoxX_def boxPassAlong_def
      split: prod.splits)

lemma cookTask_DoBoxY:
  "cookTask (DoBoxY w) (f, lm) = Inr (boxPassAlong 2 w (f\<lparr>mTask := Some (DoBoxY w)\<rparr>, lm))"
  by (simp add: cookTask_def cook_def parallel_for_def runRange_def doBoxY_def boxPassAlong_def
      split: prod.splits)

lemma cookTask_DoBoxZ:
  "cookTask (DoBoxZ w) (f, lm) = Inr (boxPassAlong 1 w (f\<lparr>mTask := Some (DoBoxZ w)\<rparr>, lm))"
  by (simp add: cookTask_def cook_def parallel_for_def runRange_def doBoxZ_def boxPassAlong_def
      split: prod.splits)

lemma boxPasses_axes:
  "boxPasses w s =
     Inr (boxPassAlong 1 w (withTask (DoBoxZ w)
           (boxPassAlong 2 w (withTask (DoBoxY w)
             (boxPassAlong 0 w (withTask (DoBoxX w) s))))))"
proof -
  obtain f lm where s: "s = (f, lm)" by (cases s)
  obtain f1 lm1 where 1: "boxPassAlong 0 w (f\<lparr>mTask := Some (DoBoxX w)\<rparr>, lm) = (f1, lm1)"
    by (cases "boxPassAlong 0 w (f\<lparr>mTask := Some (DoBoxX w)\<rparr>, lm)")
  obtain f2 lm2 where 2: "boxPassAlong 2 w (f1\<lparr>mTask := Some (DoBoxY w)\<rparr>, lm1) = (f2, lm2)"
    by (cases "boxPassAlong 2 w (f1\<lparr>mTask := Some (DoBoxY w)\<rparr>, lm1)")
  show ?thesis
    by (simp add: boxPasses_def andThen_def s withTask_def cookTask_DoBoxX cookTask_DoBoxY
        cookTask_DoBoxZ 1 2)
qed

text \<open>
  Without interruption, \<^verbatim>\<open>mean\<close> runs \<^verbatim>\<open>iterations\<close> rounds of the three passes and
  \<^verbatim>\<open>gaussian\<close> four rounds per iteration.
\<close>

lemma boxPasses_boxRound: "boxPasses w s = Inr (boxRound w s)"
  by (simp add: boxPasses_axes boxRound_def)

lemma mInterrupter_boxPassAlong: "mInterrupter (fst (boxPassAlong axis w s)) = mInterrupter (fst s)"
  by (cases s) (simp add: boxPassAlong_def doBox_def split: prod.splits)

lemma mInterrupter_withTask: "mInterrupter (fst (withTask task s)) = mInterrupter (fst s)"
  by (cases s) (simp add: withTask_def)

lemma wasInterrupted_boxRound: "wasInterrupted (fst (boxRound w s)) = wasInterrupted (fst s)"
  by (simp add: wasInterrupted_def boxRound_def mInterrupter_boxPassAlong mInterrupter_withTask)

lemma wasInterrupted_rounds: "wasInterrupted (fst ((boxRound w ^^ n) s)) = wasInterrupted (fst s)"
  by (induction n) (simp_all add: wasInterrupted_boxRound)

lemma meanLoop_rounds:
  "\<not> wasInterrupted (fst s) \<Longrightarrow> meanLoop n w s = Inr ((boxRound w ^^ n) s)"
proof (induction n arbitrary: s)
  case 0
  show ?case by simp
next
  case (Suc n)
  have "\<not> wasInterrupted (fst (boxRound w s))" using Suc.prems by (simp add: wasInterrupted_boxRound)
  from Suc.IH[OF this] Suc.prems show ?case
    by (simp add: boxPasses_boxRound andThen_def funpow_swap1)
qed

lemma gaussianInner_rounds:
  "\<not> wasInterrupted (fst s) \<Longrightarrow> gaussianInner n w s = Inr ((boxRound w ^^ n) s)"
proof (induction n arbitrary: s)
  case 0
  show ?case by simp
next
  case (Suc n)
  have "\<not> wasInterrupted (fst (boxRound w s))" using Suc.prems by (simp add: wasInterrupted_boxRound)
  from Suc.IH[OF this] Suc.prems show ?case
    by (simp add: boxPasses_boxRound andThen_def funpow_swap1)
qed

lemma gaussianLoop_rounds:
  "\<not> wasInterrupted (fst s) \<Longrightarrow> gaussianLoop n w s = Inr (((boxRound w ^^ 4) ^^ n) s)"
proof (induction n arbitrary: s)
  case 0
  show ?case by simp
next
  case (Suc n)
  have "\<not> wasInterrupted (fst ((boxRound w ^^ 4) s))"
    using Suc.prems by (simp add: wasInterrupted_rounds)
  from Suc.IH[OF this] gaussianInner_rounds[OF Suc.prems, of 4 w] show ?case
    by (simp only: gaussianLoop.simps andThen_def sum.case funpow_Suc_right o_apply)
qed

text \<open>
  One pass on the small grid, and the values that the accessor and the average read
  there.
\<close>

lemma boxPassAlong_oneLeaf:
  "boxPassAlong axis w (oneLeafState task b a) =
     oneLeafState task
       (\<lambda>pos. if pos < NUM_VALUES \<and> (pos = 0 \<or> pos = 1 \<or> pos = 8)
              then Avg (oneLeaf b) axis w (getCoord exampleLeaf pos) else a pos) b"
proof -
  have m: "mMask (exampleFilter\<lparr>mGrid := oneLeaf b, mTask := task\<rparr>) = None"
    by (simp add: exampleFilter_def newFilter_def)
  have v: "valueMask exampleLeaf pos \<longleftrightarrow> pos = 0 \<or> pos = 1 \<or> pos = 8" for pos
    by (simp add: exampleLeaf_def)
  have c: "getCoord (exampleLeaf\<lparr>buffer := b\<rparr>) pos = getCoord exampleLeaf pos" for pos
    by (simp add: getCoord_def)
  have l: "leafs (oneLeaf b) = [exampleLeaf\<lparr>buffer := b\<rparr>]"
    by (simp add: oneLeaf_def)
  have d: "doBox axis w (oneLeafState task b a) =
      (exampleFilter\<lparr>mGrid := oneLeaf b, mTask := task\<rparr>,
       \<lparr>mAuxBuffersPerLeaf = 1, mAuxBuffers = [[\<lambda>pos. if pos < NUM_VALUES \<and> (pos = 0 \<or> pos = 1 \<or> pos = 8)
              then Avg (oneLeaf b) axis w (getCoord exampleLeaf pos) else a pos]]\<rparr>)"
    by (simp add: doBox_def oneLeafState_def l doBoxLeaf_unmasked[OF m] v c cong: if_cong)
  show ?thesis
    unfolding boxPassAlong_def d
    by (simp add: swapLeafBuffer_def oneLeafState_def l) (simp add: oneLeaf_def)
qed

lemma withTask_oneLeaf: "withTask t (oneLeafState task b a) = oneLeafState (Some t) b a"
  by (simp add: withTask_def oneLeafState_def)

lemma in_leaf_at_origin: "(x :: int) - x mod 8 = 0 \<longleftrightarrow> 0 \<le> x \<and> x < 8"
  by presburger

lemma getValue_oneLeaf:
  "getValue (oneLeaf b) (x, y, z) =
     (if 0 \<le> x \<and> x < 8 \<and> 0 \<le> y \<and> y < 8 \<and> 0 \<le> z \<and> z < 8
      then b (nat (x * 64 + y * 8 + z)) else 0)"
proof -
  have o: "(0, 0, 0) = leafOrigin (x, y, z) \<longleftrightarrow> 0 \<le> x \<and> x < 8 \<and> 0 \<le> y \<and> y < 8 \<and> 0 \<le> z \<and> z < 8"
    unfolding leafOrigin_def DIM_def LOG2DIM_def
    using in_leaf_at_origin[of x] in_leaf_at_origin[of y] in_leaf_at_origin[of z]
    by auto
  show ?thesis
    by (simp add: getValue_def probeLeaf_def oneLeaf_def exampleGrid_def exampleLeaf_def o
        coordToOffset_def DIM_def LOG2DIM_def)
qed

lemma buffer_exampleLeaf: "buffer exampleLeaf = (\<lambda>n. if n = 1 then 9 else 0)"
  by (simp add: exampleLeaf_def)

lemma mGrid_oneLeafState: "mGrid (fst (oneLeafState task b a)) = oneLeaf b"
  by (simp add: oneLeafState_def)

lemma upto_three: "[i - 1..i + 1] = [i - 1, i, i + 1]"
proof -
  have "[i - 1..i + 1] = (i - 1) # [i..i + 1]" by (subst upto_rec1) simp_all
  also have "[i..i + 1] = i # [i + 1..i + 1]" by (subst upto_rec1) simp_all
  finally show ?thesis by simp
qed

lemma Avg_width_1:
  "Avg t axis 1 xyz =
     (getValue t (setAxis xyz axis (getAxis xyz axis - 1))
      + getValue t (setAxis xyz axis (getAxis xyz axis))
      + getValue t (setAxis xyz axis (getAxis xyz axis + 1))) * (1 / 3)"
  by (simp add: Avg_def Let_def upto_three)

lemma init_oneLeaf:
  "(exampleFilter\<lparr>mMask := None\<rparr>, newLeafManager (mGrid (exampleFilter\<lparr>mMask := None\<rparr>)) 1)
     = oneLeafState None (buffer exampleLeaf) (buffer exampleLeaf)"
  by (simp add: oneLeafState_def oneLeaf_def exampleFilter_def newFilter_def newLeafManager_def
      exampleGrid_def)

lemma coords: "getCoord exampleLeaf 0 = (0, 0, 0)" "getCoord exampleLeaf (Suc 0) = (0, 0, 1)"
  "getCoord exampleLeaf 8 = (0, 1, 0)"
  by (simp_all add: getCoord_def exampleLeaf_def offsetBy_def offsetToLocalCoord_def DIM_def
      LOG2DIM_def)

text \<open>
  C5. Each call to \<^verbatim>\<open>Filter::mean(width, iterations, mask)\<close> performs, per iteration,
  three sequential 1-D box passes along x, then y, then z, each reading the current
  buffer and writing the scratch buffer that is swapped in after the pass. The source
  runs \<^verbatim>\<open>doBoxX\<close>, \<^verbatim>\<open>doBoxY\<close>, \<^verbatim>\<open>doBoxZ\<close> in this order, but \<^verbatim>\<open>doBoxY\<close> is
  \<^verbatim>\<open>doBox<Avg<2>>\<close> and \<^verbatim>\<open>doBoxZ\<close> is \<^verbatim>\<open>doBox<Avg<1>>\<close>: the passes run along
  x, then z, then y (\<^verbatim>\<open>boxPasses_axes\<close>). On the small grid, one iteration of width 1
  leaves 1/3 at the voxel \<^verbatim>\<open>(0,1,0)\<close>, where passes along x, y, z leave 0.
\<close>

theorem mean_axis_order:
  "\<exists>f'. mean 1 1 None exampleFilter = Inr f'
      \<and> getValue (mGrid f') (0, 1, 0) = 1 / 3
      \<and> getValue (mGrid (fst (specMeanIteration 1
             (oneLeafState None (buffer exampleLeaf) (buffer exampleLeaf))))) (0, 1, 0) = 0"
proof -
  have "mean 1 1 None exampleFilter
      = Inr (fst (boxPassAlong 1 1 (withTask (DoBoxZ 1)
           (boxPassAlong 2 1 (withTask (DoBoxY 1)
             (boxPassAlong 0 1 (withTask (DoBoxX 1)
                (oneLeafState None (buffer exampleLeaf) (buffer exampleLeaf)))))))))"
  proof -
    have "mean 1 1 None exampleFilter
        = andThen (meanLoop (nat 1) (max 1 1)
            (oneLeafState None (buffer exampleLeaf) (buffer exampleLeaf))) (\<lambda>s. Inr (fst s))"
      unfolding mean_def Let_def init_oneLeaf by (rule refl)
    moreover have "wasInterrupted (fst (oneLeafState None (buffer exampleLeaf) (buffer exampleLeaf))) = False"
      by (simp add: wasInterrupted_def oneLeafState_def exampleFilter_def newFilter_def)
    moreover have "nat 1 = Suc 0" by simp
    ultimately show ?thesis
      by (simp add: boxPasses_axes andThen_def)
  qed
  moreover have "getValue (mGrid (fst (boxPassAlong 1 1 (withTask (DoBoxZ 1)
           (boxPassAlong 2 1 (withTask (DoBoxY 1)
             (boxPassAlong 0 1 (withTask (DoBoxX 1)
                (oneLeafState None (buffer exampleLeaf) (buffer exampleLeaf))))))))))
       (0, 1, 0) = 1 / 3"
    by (simp add: withTask_oneLeaf boxPassAlong_oneLeaf mGrid_oneLeafState getValue_oneLeaf
        Avg_width_1 coords NUM_VALUES_def LOG2DIM_def buffer_exampleLeaf)
  moreover have "getValue (mGrid (fst (specMeanIteration 1
             (oneLeafState None (buffer exampleLeaf) (buffer exampleLeaf))))) (0, 1, 0) = 0"
    by (simp add: specMeanIteration_def boxPassAlong_oneLeaf mGrid_oneLeafState getValue_oneLeaf
        Avg_width_1 coords NUM_VALUES_def LOG2DIM_def buffer_exampleLeaf)
  ultimately show ?thesis by simp
qed

section \<open>Filter.h: offsetting there and back\<close>

text \<open>
  Without a mask \<^verbatim>\<open>offset\<close> writes, at every active voxel of every leaf and once, the
  rounded sum of the stored value and the constant; with a mask, where the mask admits
  the voxel, the rounded sum of the value and the rounded product. With exact sums the
  path is the one of \<^verbatim>\<open>offset\<close> above, and offsetting by \<^verbatim>\<open>c\<close> and then by \<^verbatim>\<open>-c\<close>
  restores the grid, whatever the two grain sizes and with any mask.
\<close>

lemma offsetRnd_exact: "offsetRnd (\<lambda>x. x) v msk f = offset v msk f"
proof -
  have leaf: "doOffsetLeafRnd (\<lambda>x. x) g v = doOffsetLeaf g v" for g
    by (rule ext) (simp add: doOffsetLeafRnd_def doOffsetLeaf_def)
  show ?thesis
    by (simp add: offsetRnd_def offset_def Let_def cookRnd_def cook_def cookTask_def
        parallel_forRnd_def parallel_for_def runRangeRnd_def runRange_def
        doOffsetRnd_def doOffset_def leaf)
qed

lemma fold_write_pointwise:
  assumes "distinct xs"
    and "\<And>p l. origin (h p l) = origin l \<and> valueMask (h p l) = valueMask l
        \<and> buffer (h p l) = (buffer l)(p := g (origin l) p (buffer l p))"
  shows "origin (fold h xs l0) = origin l0 \<and> valueMask (fold h xs l0) = valueMask l0
      \<and> buffer (fold h xs l0) q = (if q \<in> set xs then g (origin l0) q (buffer l0 q) else buffer l0 q)"
  using assms(1)
proof (induction xs arbitrary: l0)
  case Nil
  then show ?case by simp
next
  case (Cons x xs)
  have d: "distinct xs" "x \<notin> set xs" using Cons.prems by simp_all
  from Cons.IH[OF d(1), of "h x l0"] assms(2)[of x l0] d(2)
  show ?case by auto
qed

lemma distinct_onOffsets: "distinct (onOffsets l)"
  by (simp add: onOffsets_def)

lemma doOffsetLeafRnd_unmasked:
  assumes "mMask f = None"
  shows "doOffsetLeafRnd rnd f v l
     = l\<lparr>buffer := (\<lambda>q. if q \<in> set (onOffsets l) then rnd (buffer l q + v) else buffer l q)\<rparr>"
proof -
  let ?h = "\<lambda>pos l. l\<lparr>buffer := (buffer l)(pos := rnd (buffer l pos + v))\<rparr>"
  have pw: "origin (fold ?h (onOffsets l) l) = origin l
      \<and> valueMask (fold ?h (onOffsets l) l) = valueMask l
      \<and> buffer (fold ?h (onOffsets l) l) q
          = (if q \<in> set (onOffsets l) then rnd (buffer l q + v) else buffer l q)" for q
    by (rule fold_write_pointwise[where g="\<lambda>c p x. rnd (x + v)"]) (simp_all add: distinct_onOffsets)
  have "buffer (fold ?h (onOffsets l) l)
      = (\<lambda>q. if q \<in> set (onOffsets l) then rnd (buffer l q + v) else buffer l q)"
    using pw by (intro ext) simp
  then show ?thesis
    using pw unfolding doOffsetLeafRnd_def assms option.case
    by (intro LeafNode.equality) simp_all
qed

lemma doOffsetLeafRnd_masked:
  assumes "mMask f = Some alpha"
  shows "doOffsetLeafRnd rnd f v l
     = l\<lparr>buffer := (\<lambda>q. if q \<in> set (onOffsets l)
          then (case alpha (mMinMask f) (mMaxMask f) (mInvertMask f) (getCoord l q) of
                  (ok, a, b') \<Rightarrow> if ok then rnd (buffer l q + rnd (a * v)) else buffer l q)
          else buffer l q)\<rparr>"
proof -
  let ?h = "\<lambda>pos l. case alpha (mMinMask f) (mMaxMask f) (mInvertMask f) (getCoord l pos) of
                    (ok, a, b') \<Rightarrow>
                      if ok then l\<lparr>buffer := (buffer l)(pos := rnd (buffer l pos + rnd (a * v)))\<rparr>
                      else l"
  let ?g = "\<lambda>c p x. case alpha (mMinMask f) (mMaxMask f) (mInvertMask f) (offsetBy c (offsetToLocalCoord p)) of
                  (ok, a, b') \<Rightarrow> if ok then rnd (x + rnd (a * v)) else x"
  have pw: "origin (fold ?h (onOffsets l) l) = origin l
      \<and> valueMask (fold ?h (onOffsets l) l) = valueMask l
      \<and> buffer (fold ?h (onOffsets l) l) q
          = (if q \<in> set (onOffsets l) then ?g (origin l) q (buffer l q) else buffer l q)" for q
    by (rule fold_write_pointwise[where g="?g"])
      (auto simp: distinct_onOffsets getCoord_def split: prod.splits)
  have "buffer (fold ?h (onOffsets l) l)
      = (\<lambda>q. if q \<in> set (onOffsets l) then ?g (origin l) q (buffer l q) else buffer l q)"
    using pw by (intro ext) simp
  then show ?thesis
    using pw unfolding doOffsetLeafRnd_def assms option.case
    by (intro LeafNode.equality) (simp_all add: getCoord_def cong: if_cong)
qed

lemma offsetRnd_unmasked:
  "offsetRnd rnd v None f
     = Inr (f\<lparr>mMask := None, mTask := Some (DoOffset v),
             mGrid := (mGrid f)\<lparr>leafs := map (\<lambda>l. l\<lparr>buffer := (\<lambda>q. if q \<in> set (onOffsets l)
                 then rnd (buffer l q + v) else buffer l q)\<rparr>) (leafs (mGrid f))\<rparr>\<rparr>)"
  by (simp add: offsetRnd_def Let_def cookRnd_def parallel_forRnd_def runRangeRnd_def
      doOffsetRnd_def swapLeafBuffer_def newLeafManager_def andThen_def
      doOffsetLeafRnd_unmasked)

lemma onOffsets_buffer: "onOffsets (l\<lparr>buffer := b\<rparr>) = onOffsets l"
  by (simp add: onOffsets_def)


lemma offsetRnd_masked:
  "offsetRnd rnd v (Some alpha) f
     = Inr (f\<lparr>mMask := Some alpha, mTask := Some (DoOffset v),
             mGrid := (mGrid f)\<lparr>leafs := map (\<lambda>l. l\<lparr>buffer := (\<lambda>q. if q \<in> set (onOffsets l)
                 then (case alpha (mMinMask f) (mMaxMask f) (mInvertMask f) (getCoord l q) of
                         (ok, a, b') \<Rightarrow> if ok then rnd (buffer l q + rnd (a * v)) else buffer l q)
                 else buffer l q)\<rparr>) (leafs (mGrid f))\<rparr>\<rparr>)"
proof -
  have leaf: "doOffsetLeafRnd rnd (f\<lparr>mMask := Some alpha, mTask := Some (DoOffset v)\<rparr>) v l
      = l\<lparr>buffer := (\<lambda>q. if q \<in> set (onOffsets l)
                 then (case alpha (mMinMask f) (mMaxMask f) (mInvertMask f) (getCoord l q) of
                         (ok, a, b') \<Rightarrow> if ok then rnd (buffer l q + rnd (a * v)) else buffer l q)
                 else buffer l q)\<rparr>" for l
    using doOffsetLeafRnd_masked[where f="f\<lparr>mMask := Some alpha, mTask := Some (DoOffset v)\<rparr>"
      and alpha=alpha and rnd=rnd and v=v and l=l]
    by (simp cong: if_cong)
  show ?thesis
    by (simp add: offsetRnd_def Let_def cookRnd_def parallel_forRnd_def runRangeRnd_def
        doOffsetRnd_def swapLeafBuffer_def newLeafManager_def andThen_def leaf)
qed

lemma getCoord_buffer: "getCoord (l\<lparr>buffer := b\<rparr>) q = getCoord l q"
  by (simp add: getCoord_def)

lemma offset_exact_round_trip:
  "\<exists>f1 f2. offset c msk (setGrainSize g1 f) = Inr f1
     \<and> offset (- c) msk (setGrainSize g2 f1) = Inr f2 \<and> mGrid f2 = mGrid f"
proof (cases msk)
  case None
  show ?thesis
    unfolding None offsetRnd_exact[symmetric] offsetRnd_unmasked
    by (simp add: setGrainSize_def onOffsets_buffer o_def cong: if_cong)
next
  case (Some alpha)
  show ?thesis
    unfolding Some offsetRnd_exact[symmetric] offsetRnd_masked
    apply (simp add: setGrainSize_def onOffsets_buffer getCoord_buffer o_def cong: if_cong)
    apply (rule Tree.equality; simp)
    apply (rule map_idI)
    apply (rule LeafNode.equality)
       apply (auto simp: fun_eq_iff split: prod.splits)
    done
qed










lemma log2floor_nonneg: "0 \<le> log2floor n"
  by (induction n rule: log2floor.induct) (simp add: log2floor.simps)

lemma log2floor_correct:
  "1 \<le> n \<Longrightarrow> 2 ^ nat (log2floor n) \<le> n \<and> n < 2 ^ Suc (nat (log2floor n))"
proof (induction n rule: log2floor.induct)
  case (1 n)
  show ?case
  proof (cases "n < 2")
    case True
    then show ?thesis using 1(2) by (simp add: log2floor.simps)
  next
    case False
    then have m: "1 \<le> n div 2" by simp
    from 1(1)[OF False m]
    have IH: "2 ^ nat (log2floor (n div 2)) \<le> n div 2"
      "n div 2 < 2 ^ Suc (nat (log2floor (n div 2)))" by simp_all
    have k: "nat (log2floor n) = Suc (nat (log2floor (n div 2)))"
      using False log2floor_nonneg[of "n div 2"] by (simp add: log2floor.simps[of n] nat_add_distrib)
    have "2 * (n div 2) \<le> n" "n < 2 * (n div 2) + 2" by simp_all
    then show ?thesis unfolding k using IH by simp
  qed
qed

lemma exponent_correct:
  assumes "0 < x"
  shows "2 powi exponent x \<le> x \<and> x < 2 powi (exponent x + 1)"
proof (cases "1 \<le> x")
  case True
  let ?n = "\<lfloor>x\<rfloor>"
  let ?k = "nat (log2floor ?n)"
  have n: "1 \<le> ?n" using True by simp
  from log2floor_correct[OF n] have b: "2 ^ ?k \<le> ?n" "?n < 2 ^ Suc ?k" by simp_all
  have e: "exponent x = int ?k"
    using True log2floor_nonneg[of ?n] by (simp add: exponent_def)
  have "(of_int (2 ^ ?k) :: rat) \<le> x" using b(1) by (simp only: le_floor_iff)
  then have lo: "(2 :: rat) ^ ?k \<le> x" by simp
  have "x < (of_int (2 ^ Suc ?k) :: rat)" using b(2) by (simp only: floor_less_iff)
  then have hi: "x < (2 :: rat) ^ Suc ?k" by simp
  have "int ?k + 1 = int (Suc ?k)" by simp
  then show ?thesis unfolding e using lo hi by (simp only: power_int_of_nat)
next
  case False
  let ?y = "1 / x"
  let ?m = "\<lceil>?y\<rceil>"
  let ?j = "nat (log2floor (?m - 1))"
  have y: "1 < ?y" using False assms by simp
  then have m: "1 \<le> ?m - 1" by (simp add: less_ceiling_iff)
  from log2floor_correct[OF m] have b: "2 ^ ?j < ?m" "?m \<le> 2 ^ Suc ?j" by simp_all
  have e: "exponent x = - int (Suc ?j)"
    using False log2floor_nonneg[of "?m - 1"] by (simp add: exponent_def)
  have "?y \<le> (of_int (2 ^ Suc ?j) :: rat)" using b(2) by (simp only: ceiling_le_iff)
  then have "?y \<le> (2 :: rat) ^ Suc ?j" by simp
  then have lo: "1 / (2 :: rat) ^ Suc ?j \<le> x"
    using assms by (simp add: field_simps)
  have "(of_int (2 ^ ?j) :: rat) < ?y" using b(1) by (simp only: less_ceiling_iff)
  then have "(2 :: rat) ^ ?j < ?y" by simp
  then have hi: "x < 1 / (2 :: rat) ^ ?j"
    using assms by (simp add: field_simps)
  have p1: "(2 :: rat) powi (- int (Suc ?j)) = 1 / 2 ^ Suc ?j"
    by (simp only: power_int_minus power_int_of_nat inverse_eq_divide)
  have "- int (Suc ?j) + 1 = - int ?j" by simp
  then have p2: "(2 :: rat) powi (- int (Suc ?j) + 1) = 1 / 2 ^ ?j"
    by (simp only: power_int_minus power_int_of_nat inverse_eq_divide)
  show ?thesis unfolding e p1 p2 using lo hi by simp
qed















section \<open>PointDelete.h: what a deletion keeps\<close>

text \<open>
  The loop over the voxels of a well-formed leaf collects the indices that pass the
  filter in increasing order, so the new rows are the rows that pass the filter and the
  new leaf is well formed; a well-formed leaf has an active voxel exactly when it has
  a point, so pruning removes the leaves that lost all their points.
\<close>

lemma index_fold:
  "fold (\<lambda>i (attributeIndex, indexMapping). (attributeIndex + 1, indexMapping @ [(i, attributeIndex)]))
        xs (a, m) = (a + length xs, m @ zip xs [a..<a + length xs])"
proof (induction xs arbitrary: a m)
  case Nil
  then show ?case by simp
next
  case (Cons x xs)
  have "[a..<a + length (x # xs)] = a # [Suc a..<Suc a + length xs]"
    by (simp add: upt_conv_Cons del: upt_Suc)
  then show ?case
    using Cons.IH[of "Suc a" "m @ [(x, a)]"] by (simp del: upt_Suc)
qed

lemma upt_split: "i \<le> j \<Longrightarrow> [0..<j] = [0..<i] @ [i..<j]"
  using upt_add_eq_append[of 0 i "j - i"] by simp

lemma voxelStart_le:
  assumes "sorted (offsets leaf)" and "k < length (offsets leaf)"
  shows "voxelStart leaf k \<le> offsets leaf ! k"
  using assms by (auto simp: voxelStart_def sorted_iff_nth_mono)

lemma keptBelow_step:
  assumes "sorted (offsets leaf)" and "k < length (offsets leaf)"
  shows "keptBelow leaf f (offsets leaf ! k) = keptBelow leaf f (voxelStart leaf k) @ beginIndexVoxel leaf k f"
proof -
  have "[0..<offsets leaf ! k] = [0..<voxelStart leaf k] @ [voxelStart leaf k..<offsets leaf ! k]"
    using voxelStart_le[OF assms] by (rule upt_split)
  then show ?thesis by (simp add: keptBelow_def beginIndexVoxel_def)
qed

lemma voxel_loop:
  assumes "sorted (offsets leaf)" and "k \<le> length (offsets leaf)"
  shows "fold (voxelStep leaf f) [0..<k] (0, [], []) =
     (length (keptBelow leaf f (voxelStart leaf k)),
      zip (keptBelow leaf f (voxelStart leaf k)) [0..<length (keptBelow leaf f (voxelStart leaf k))],
      map (\<lambda>v. length (keptBelow leaf f (offsets leaf ! v))) [0..<k])"
  using assms(2)
proof (induction k)
  case 0
  then show ?case by (simp add: voxelStart_def keptBelow_def)
next
  case (Suc k)
  let ?K = "keptBelow leaf f (voxelStart leaf k)"
  let ?B = "beginIndexVoxel leaf k f"
  have k: "k < length (offsets leaf)" using Suc.prems by simp
  have next_start: "voxelStart leaf (Suc k) = offsets leaf ! k" by (simp add: voxelStart_def)
  have K': "keptBelow leaf f (offsets leaf ! k) = ?K @ ?B"
    by (rule keptBelow_step[OF assms(1) k])
  have z: "zip (?K @ ?B) [0..<length ?K + length ?B]
      = zip ?K [0..<length ?K] @ zip ?B [length ?K..<length ?K + length ?B]"
  proof -
    have "[0..<length ?K + length ?B] = [0..<length ?K] @ [length ?K..<length ?K + length ?B]"
      by (rule upt_split) simp
    then show ?thesis by (simp add: zip_append)
  qed
  have "fold (voxelStep leaf f) [0..<Suc k] (0, [], [])
      = voxelStep leaf f k (fold (voxelStep leaf f) [0..<k] (0, [], []))"
    by simp
  also have "\<dots> = voxelStep leaf f k (length ?K, zip ?K [0..<length ?K],
      map (\<lambda>v. length (keptBelow leaf f (offsets leaf ! v))) [0..<k])"
    using Suc.IH k by simp
  also have "\<dots> = (length ?K + length ?B, zip ?K [0..<length ?K] @ zip ?B [length ?K..<length ?K + length ?B],
      map (\<lambda>v. length (keptBelow leaf f (offsets leaf ! v))) [0..<k] @ [length ?K + length ?B])"
    unfolding voxelStep_def fst_conv snd_conv index_fold by simp
  finally show ?case
    by (simp add: next_start K' z)
qed

lemma filter_nth_rows:
  "map (\<lambda>i. xs ! i) (filter (\<lambda>i. i < length xs \<and> Q (xs ! i)) [0..<length xs]) = filter Q xs"
proof (induction xs rule: rev_induct)
  case Nil
  then show ?case by simp
next
  case (snoc x xs)
  have "map (\<lambda>i. (xs @ [x]) ! i) (filter (\<lambda>i. i < length (xs @ [x]) \<and> Q ((xs @ [x]) ! i)) [0..<length xs])
      = map (\<lambda>i. xs ! i) (filter (\<lambda>i. i < length xs \<and> Q (xs ! i)) [0..<length xs])"
    by (auto intro!: map_cong filter_cong simp: nth_append)
  then show ?case using snoc.IH by (simp add: nth_append)
qed

lemma copyValues_kept:
  "copyValues rs (zip ks [0..<length ks]) = map (\<lambda>i. rs ! i) ks"
proof -
  have "map fst (zip ks [0..<length ks]) = ks"
    by (rule map_fst_zip) simp
  then have "map (\<lambda>i. rs ! i) ks = map (\<lambda>i. rs ! i) (map fst (zip ks [0..<length ks]))"
    by simp
  also have "\<dots> = copyValues rs (zip ks [0..<length ks])"
    unfolding copyValues_def map_map by (simp add: comp_def split_def)
  finally show ?thesis by simp
qed

lemma checkArrays_create:
  assumes "sameLayoutAs create" and "\<forall>a \<in> set as. hasConstantStride a"
  shows "checkArrays (map (\<lambda>a. create a n) as) as = None"
  using assms(2)
proof (induction as)
  case Nil
  then show ?case by simp
next
  case (Cons a as)
  then show ?case using assms(1) by (simp add: sameLayoutAs_def)
qed

lemma beginIndexAll_kept: "beginIndexAll leaf f = keptBelow leaf f (getLastValue leaf)"
  by (simp add: beginIndexAll_def keptBelow_def)

lemma getLastValue_wf: "wfLeaf leaf \<Longrightarrow> getLastValue leaf = length (rows leaf)"
  by (simp add: wfLeaf_def getLastValue_def)

lemma kept_rows: "map (\<lambda>i. rows leaf ! i) (keptBelow leaf f (length (rows leaf))) = filter (valid f) (rows leaf)"
  unfolding keptBelow_def by (rule filter_nth_rows)

lemma length_kept: "length (keptBelow leaf f (length (rows leaf))) = length (filter (valid f) (rows leaf))"
  using kept_rows[of leaf f] by (metis length_map)

lemma keptBelow_mono: "a \<le> b \<Longrightarrow> length (keptBelow leaf f a) \<le> length (keptBelow leaf f b)"
  using upt_split[of a b] by (simp add: keptBelow_def)

lemma wfLeaf_clearAttributes: "wfLeaf leaf \<Longrightarrow> wfLeaf (clearAttributes leaf)"
  by (auto simp: wfLeaf_def clearAttributes_def voxelStart_def last_map sorted_map
      intro!: nth_equalityI sorted_wrt_true)

lemma voxelStart_last:
  "offsets leaf \<noteq> [] \<Longrightarrow> voxelStart leaf (length (offsets leaf)) = last (offsets leaf)"
  by (simp add: voxelStart_def last_conv_nth)

lemma deleteByFilterOp_main:
  assumes wf: "wfLeaf leaf"
    and arrays: "\<forall>a \<in> set (attributeArrays leaf). hasConstantStride a"
    and create: "sameLayoutAs create"
  shows "\<exists>leaf'. deleteByFilterOp create f leaf = Inr leaf'
      \<and> rows leaf' = filter (valid f) (rows leaf)
      \<and> groupMap leaf' = groupMap leaf \<and> wfLeaf leaf'"
proof -
  let ?n = "length (offsets leaf)"
  let ?K = "keptBelow leaf f (length (rows leaf))"
  have last: "getLastValue leaf = length (rows leaf)" by (rule getLastValue_wf[OF wf])
  have newSize: "length (beginIndexAll leaf f) = length (filter (valid f) (rows leaf))"
    by (simp add: beginIndexAll_kept last length_kept)
  show ?thesis
  proof (cases "filter (valid f) (rows leaf) = []")
    case True
    then have "deleteByFilterOp create f leaf = Inr (clearAttributes leaf)"
      by (simp add: deleteByFilterOp_def newSize)
    then show ?thesis
      using True wfLeaf_clearAttributes[OF wf] by (simp add: clearAttributes_def)
  next
    case nonempty: False
    show ?thesis
    proof (cases "length (filter (valid f) (rows leaf)) = length (rows leaf)")
      case True
      then have all: "filter (valid f) (rows leaf) = rows leaf"
        by (metis filter_id_conv length_filter_less less_irrefl)
      have "rows leaf \<noteq> []" using nonempty by auto
      then have "deleteByFilterOp create f leaf = Inr leaf"
        using True by (simp add: deleteByFilterOp_def newSize last Let_def)
      then show ?thesis using all wf by simp
    next
      case False
      have sorted: "sorted (offsets leaf)" and ne: "offsets leaf \<noteq> []"
        and lastoff: "last (offsets leaf) = length (rows leaf)"
        using wf by (simp_all add: wfLeaf_def)
      have loop: "fold (voxelStep leaf f) [0..<?n] (0, [], []) =
          (length ?K, zip ?K [0..<length ?K],
           map (\<lambda>v. length (keptBelow leaf f (offsets leaf ! v))) [0..<?n])"
        using voxel_loop[OF sorted, of ?n f] by (simp add: voxelStart_last[OF ne] lastoff)
      let ?E = "map (\<lambda>v. length (keptBelow leaf f (offsets leaf ! v))) [0..<?n]"
      let ?leaf' = "setOffsets ?E (leaf\<lparr>rows := copyValues (rows leaf) (zip ?K [0..<length ?K]),
          attributeArrays := map (\<lambda>a. create a (length (beginIndexAll leaf f))) (attributeArrays leaf)\<rparr>)"
      have b1: "length (beginIndexAll leaf f) \<noteq> 0" using nonempty newSize by simp
      have b2: "length (beginIndexAll leaf f) \<noteq> getLastValue leaf"
        using False newSize last by simp
      have res: "deleteByFilterOp create f leaf = Inr ?leaf'"
        unfolding deleteByFilterOp_def Let_def
        using b1 b2 by (simp add: checkArrays_create[OF create arrays] loop)
      have rows': "rows ?leaf' = filter (valid f) (rows leaf)"
        by (simp add: setOffsets_def copyValues_kept kept_rows)
      have n0: "0 < ?n" using ne by simp
      have sortedE: "sorted ?E"
        using sorted by (auto simp: sorted_iff_nth_mono intro!: keptBelow_mono)
      have lastE: "last ?E = length (filter (valid f) (rows leaf))"
        using n0 ne lastoff by (simp add: last_conv_nth length_kept[symmetric])
      have "wfLeaf ?leaf'"
        unfolding wfLeaf_def
        using n0 sortedE lastE rows'
        by (auto simp: setOffsets_def voxelStart_def simp del: upt_Suc)
      then show ?thesis using res rows' by (simp add: setOffsets_def)
    qed
  qed
qed

lemma forLeaves_main:
  assumes "\<forall>leaf \<in> set tree. wfLeaf leaf \<and> (\<forall>a \<in> set (attributeArrays leaf). hasConstantStride a)"
    and "sameLayoutAs create"
  shows "\<exists>t'. forLeaves (deleteByFilterOp create f) tree = Inr t'
      \<and> list_all2 (\<lambda>l l'. rows l' = filter (valid f) (rows l)
              \<and> groupMap l' = groupMap l \<and> wfLeaf l') tree t'"
  using assms(1)
proof (induction tree)
  case Nil
  then show ?case by simp
next
  case (Cons leaf rest)
  obtain leaf' where 1: "deleteByFilterOp create f leaf = Inr leaf'"
      "rows leaf' = filter (valid f) (rows leaf)" "groupMap leaf' = groupMap leaf" "wfLeaf leaf'"
    using deleteByFilterOp_main[of leaf create f] Cons.prems assms(2) by auto
  obtain rest' where 2: "forLeaves (deleteByFilterOp create f) rest = Inr rest'"
      "list_all2 (\<lambda>l l'. rows l' = filter (valid f) (rows l)
              \<and> groupMap l' = groupMap l \<and> wfLeaf l') rest rest'"
    using Cons.IH Cons.prems by auto
  show ?case using 1 2 by simp
qed

lemma active_iff_points:
  assumes "wfLeaf l"
  shows "list_ex (\<lambda>b. b) (valueOn l) \<longleftrightarrow> rows l \<noteq> []"
proof
  assume "list_ex (\<lambda>b. b) (valueOn l)"
  then obtain v where v: "v < length (offsets l)" "voxelStart l v < offsets l ! v"
    using assms by (auto simp: wfLeaf_def list_ex_iff)
  have "sorted (offsets l)" using assms by (simp add: wfLeaf_def)
  then have "offsets l ! v \<le> offsets l ! (length (offsets l) - 1)"
    using v(1) by (intro sorted_nth_mono) simp_all
  moreover have "offsets l \<noteq> []" using v(1) by auto
  ultimately have "offsets l ! v \<le> last (offsets l)"
    by (simp add: last_conv_nth)
  then show "rows l \<noteq> []" using v(2) assms by (auto simp: wfLeaf_def)
next
  assume ne: "rows l \<noteq> []"
  let ?n = "length (offsets l)"
  have pos: "0 < offsets l ! (?n - 1)" and n: "0 < ?n"
    using assms ne by (auto simp: wfLeaf_def last_conv_nth)
  define v where "v = (LEAST v. v < ?n \<and> 0 < offsets l ! v)"
  have ex: "?n - 1 < ?n \<and> 0 < offsets l ! (?n - 1)" using pos n by simp
  have v: "v < ?n \<and> 0 < offsets l ! v"
    unfolding v_def by (rule LeastI[of "\<lambda>v. v < ?n \<and> 0 < offsets l ! v", OF ex])
  have least: "\<And>u. u < v \<Longrightarrow> \<not> (u < ?n \<and> 0 < offsets l ! u)"
    unfolding v_def by (rule not_less_Least)
  have "voxelStart l v = 0"
  proof (cases v)
    case 0
    then show ?thesis by (simp add: voxelStart_def)
  next
    case (Suc u)
    then have "\<not> (u < ?n \<and> 0 < offsets l ! u)" using least[of u] by simp
    then show ?thesis using v Suc by (simp add: voxelStart_def)
  qed
  then have "voxelStart l v < offsets l ! v" using v by simp
  then show "list_ex (\<lambda>b. b) (valueOn l)"
    using assms v by (auto simp: wfLeaf_def list_ex_iff intro!: bexI[of _ v])
qed

lemma allRows_pruneInactive:
  "\<forall>l \<in> set t. wfLeaf l \<Longrightarrow> allRows (pruneInactive t) = allRows t"
  by (induction t) (auto simp: allRows_def pruneInactive_def active_iff_points)

lemma allRows_deleted:
  "list_all2 (\<lambda>l l'. rows l' = filter P (rows l) \<and> Q l l') tree t'
     \<Longrightarrow> allRows t' = filter P (allRows tree)"
  by (induction rule: list_all2_induct) (auto simp: allRows_def)

lemma pointCount_wf: "\<forall>l \<in> set t. wfLeaf l \<Longrightarrow> pointCount t = length (allRows t)"
  by (induction t) (auto simp: pointCount_def allRows_def getLastValue_wf)

lemma valid_exclude:
  "valid (newMultiGroupFilter [] groups d) p
     \<longleftrightarrow> \<not> (\<exists>g \<in> set groups. g \<in> set d \<and> g \<in> set (memberOf p))"
  by (auto simp: valid_def newMultiGroupFilter_def list_ex_iff hasGroup_def)

lemma pointCount_dropGroups: "pointCount (dropGroups t gs) = pointCount t"
  by (induction t) (simp_all add: pointCount_def dropGroups_def getLastValue_def)

lemma pointIds_dropGroups: "map pointId (allRows (dropGroups t gs)) = map pointId (allRows t)"
  by (induction t) (simp_all add: allRows_def dropGroups_def comp_def)

lemma deleteFromGroups_not_inverted:
  assumes tree: "tree \<noteq> []"
    and wf: "\<forall>leaf \<in> set tree. wfLeaf leaf \<and> (\<forall>a \<in> set (attributeArrays leaf). hasConstantStride a)"
    and descr: "\<forall>leaf \<in> set tree. groupMap leaf = d"
    and create: "sameLayoutAs create"
    and avail: "\<exists>g \<in> set groups. g \<in> set d"
  shows "\<exists>t. deleteFromGroups create tree groups False True = Inr t
      \<and> map pointId (allRows t)
          = map pointId (filter (\<lambda>p. \<not> (\<exists>g \<in> set groups. g \<in> set d \<and> g \<in> set (memberOf p)))
                                (allRows tree))
      \<and> pointCount t = length (allRows t)
      \<and> (\<forall>leaf \<in> set t. groupMap leaf = filter (\<lambda>g. g \<notin> set groups) d)"
proof -
  obtain leaf0 rest where t: "tree = leaf0 # rest" using tree by (cases tree) auto
  have d0: "groupMap leaf0 = d" using descr t by simp
  let ?f = "newMultiGroupFilter [] groups d"
  let ?avail = "filter (hasGroup d) groups"
  have av: "?avail \<noteq> []" using avail by (auto simp: filter_empty_conv hasGroup_def)
  obtain t' where del: "forLeaves (deleteByFilterOp create ?f) tree = Inr t'"
    and rel: "list_all2 (\<lambda>l l'. rows l' = filter (valid ?f) (rows l)
              \<and> groupMap l' = groupMap l \<and> wfLeaf l') tree t'"
    using forLeaves_main[OF wf create, of ?f] by blast
  have wf': "\<forall>l \<in> set t'. wfLeaf l"
    using rel by (auto simp: list_all2_conv_all_nth in_set_conv_nth)
  have gm': "\<forall>l \<in> set t'. groupMap l = d"
  proof
    fix l assume "l \<in> set t'"
    then obtain i where i: "i < length t'" "t' ! i = l" by (auto simp: in_set_conv_nth)
    have "length tree = length t'" using rel by (rule list_all2_lengthD)
    then have "tree ! i \<in> set tree" using i(1) by simp
    then have "groupMap (tree ! i) = d" using descr by blast
    moreover have "groupMap (t' ! i) = groupMap (tree ! i)"
      using rel i(1) by (simp add: list_all2_conv_all_nth)
    ultimately show "groupMap l = d" using i(2) by simp
  qed
  let ?t = "dropGroups (pruneInactive t') ?avail"
  have res: "deleteFromGroups create tree groups False True = Inr ?t"
    using av del by (simp add: deleteFromGroups_def t d0 Let_def)
  have wfp: "\<forall>l \<in> set (pruneInactive t'). wfLeaf l"
    using wf' by (simp add: pruneInactive_def)
  have rows: "allRows (pruneInactive t') = filter (valid ?f) (allRows tree)"
    using allRows_pruneInactive[OF wf'] allRows_deleted[OF rel] by simp
  have ids: "map pointId (allRows ?t)
      = map pointId (filter (\<lambda>p. \<not> (\<exists>g \<in> set groups. g \<in> set d \<and> g \<in> set (memberOf p)))
                            (allRows tree))"
  proof -
    have "valid ?f = (\<lambda>p. \<not> (\<exists>g \<in> set groups. g \<in> set d \<and> g \<in> set (memberOf p)))"
      by (rule ext) (rule valid_exclude)
    then show ?thesis by (simp only: pointIds_dropGroups rows)
  qed
  have cnt: "pointCount ?t = length (allRows ?t)"
    using pointCount_wf[OF wfp] pointIds_dropGroups[of "pruneInactive t'" ?avail]
    by (metis length_map pointCount_dropGroups)
  have grp: "\<forall>leaf \<in> set ?t. groupMap leaf = filter (\<lambda>g. g \<notin> set groups) d"
    using gm' by (auto simp: dropGroups_def pruneInactive_def hasGroup_def intro!: filter_cong)
  show ?thesis using res ids cnt grp by blast
qed

lemma count_le_Suc:
  "length (filter (\<lambda>u. u \<le> Suc k) xs)
     = length (filter (\<lambda>u. u \<le> k) xs) + length (filter (\<lambda>u. u = Suc k) xs)"
  by (induction xs) auto

lemma count_eq_pos: "0 < length (filter (\<lambda>u. u = v) xs) \<longleftrightarrow> v \<in> set xs"
  by (induction xs) auto

lemma count_mono: "a \<le> b \<Longrightarrow> length (filter (\<lambda>u. u \<le> a) xs) \<le> length (filter (\<lambda>u. u \<le> (b::nat)) xs)"
  by (induction xs) auto

lemma wfLeaf_pointLeaf:
  assumes "length voxels = length ps" and "\<forall>v \<in> set voxels. v < 512"
  shows "wfLeaf (pointLeaf voxels ps)"
proof -
  have len: "length (pointOffsets voxels) = 512" by (simp add: pointOffsets_def)
  have nth: "pointOffsets voxels ! v = length (filter (\<lambda>u. u \<le> v) voxels)" if "v < 512" for v
    using that by (simp add: pointOffsets_def del: upt_Suc)
  have sorted: "sorted (pointOffsets voxels)"
    by (auto simp: sorted_iff_nth_mono len nth intro!: count_mono)
  have "filter (\<lambda>u. u \<le> 511) voxels = voxels"
    using assms(2) by (auto simp: filter_id_conv)
  then have "pointOffsets voxels ! 511 = length ps"
    using nth[of 511] assms(1) by simp
  moreover have "pointOffsets voxels \<noteq> []" using len by auto
  moreover have "length (pointOffsets voxels) - 1 = 511" using len by simp
  ultimately have last: "last (pointOffsets voxels) = length ps"
    using last_conv_nth[of "pointOffsets voxels"] by simp
  have on: "(voxelStart (pointLeaf voxels ps) v < pointOffsets voxels ! v) \<longleftrightarrow> v \<in> set voxels"
    if "v < 512" for v
  proof (cases v)
    case 0
    have "length (filter (\<lambda>u. u \<le> 0) voxels) = length (filter (\<lambda>u. u = 0) voxels)" by simp
    then show ?thesis using that 0 count_eq_pos[of 0 voxels]
      by (simp add: voxelStart_def nth del: le_zero_eq)
  next
    case (Suc k)
    then show ?thesis
      using that count_le_Suc[of k voxels] count_eq_pos[of "Suc k" voxels]
      by (simp add: voxelStart_def pointLeaf_def nth)
  qed
  have mask: "valueOn (pointLeaf voxels ps)
      = map (\<lambda>v. voxelStart (pointLeaf voxels ps) v < offsets (pointLeaf voxels ps) ! v)
            [0..<length (offsets (pointLeaf voxels ps))]"
    using on by (auto simp: pointLeaf_def len intro!: nth_equalityI simp del: upt_Suc)
  show ?thesis
    unfolding wfLeaf_def using sorted last mask len
    by (auto simp: pointLeaf_def)
qed

lemma testTree_wf:
  "\<forall>leaf \<in> set testTree. wfLeaf leaf \<and> (\<forall>a \<in> set (attributeArrays leaf). hasConstantStride a)"
proof -
  have "wfLeaf (pointLeaf [73, 81, 137, 145] ps)" if "length ps = 4" for ps
    using that by (intro wfLeaf_pointLeaf) simp_all
  moreover have "wfLeaf (pointLeaf [292, 300] ps)" if "length ps = 2" for ps
    using that by (intro wfLeaf_pointLeaf) simp_all
  ultimately show ?thesis by (simp add: testTree_def) (simp add: pointLeaf_def)
qed

lemma testTree_groupMap:
  "\<forall>leaf \<in> set testTree. groupMap leaf = [''test1'', ''test2'', ''test3'', ''test4'']"
  by (simp add: testTree_def pointLeaf_def)

lemma testTree_rows:
  "allRows testTree =
     [\<lparr>pointId = 0, memberOf = [''test1'']\<rparr>, \<lparr>pointId = 1, memberOf = []\<rparr>,
      \<lparr>pointId = 2, memberOf = [''test2'']\<rparr>, \<lparr>pointId = 3, memberOf = [''test2'']\<rparr>,
      \<lparr>pointId = 4, memberOf = []\<rparr>, \<lparr>pointId = 5, memberOf = [''test1'', ''test2'']\<rparr>]"
  by (simp add: testTree_def pointLeaf_def allRows_def)

text \<open>
  C8. \<^verbatim>\<open>deleteFromGroups\<close> on the 6-point grid where \<^verbatim>\<open>test1\<close> holds the points 0 and
  5 and \<^verbatim>\<open>test2\<close> the points 2, 3 and 5, called with the groups \<^verbatim>\<open>test1\<close>, \<^verbatim>\<open>test2\<close>,
  \<^verbatim>\<open>test3\<close>, \<^verbatim>\<open>invert = false\<close> and the default \<^verbatim>\<open>drop = true\<close>, returns normally,
  deletes exactly the points of the named groups (the points 1 and 4 remain, the point
  count is 2) and drops \<^verbatim>\<open>test1\<close>, \<^verbatim>\<open>test2\<close> and \<^verbatim>\<open>test3\<close> from the descriptor of
  every remaining leaf, while \<^verbatim>\<open>test4\<close> remains.
\<close>

theorem deleteFromGroups_test:
  assumes "sameLayoutAs create"
  shows "\<exists>leaf rest.
      deleteFromGroups create testTree [''test1'', ''test2'', ''test3''] False True = Inr (leaf # rest)
      \<and> pointCount (leaf # rest) = 2
      \<and> map pointId (allRows (leaf # rest)) = [1, 4]
      \<and> (\<forall>l \<in> set (leaf # rest).
            \<not> hasGroup (groupMap l) ''test1'' \<and> \<not> hasGroup (groupMap l) ''test2''
            \<and> \<not> hasGroup (groupMap l) ''test3'' \<and> hasGroup (groupMap l) ''test4'')"
proof -
  have ne: "testTree \<noteq> []" by (simp add: testTree_def)
  have av: "\<exists>g \<in> set [''test1'', ''test2'', ''test3'']. g \<in> set [''test1'', ''test2'', ''test3'', ''test4'']"
    by simp
  from deleteFromGroups_not_inverted[OF ne testTree_wf testTree_groupMap assms av]
  obtain t where t: "deleteFromGroups create testTree [''test1'', ''test2'', ''test3''] False True = Inr t"
    "map pointId (allRows t)
       = map pointId (filter (\<lambda>p. \<not> (\<exists>g \<in> set [''test1'', ''test2'', ''test3''].
             g \<in> set [''test1'', ''test2'', ''test3'', ''test4''] \<and> g \<in> set (memberOf p)))
           (allRows testTree))"
    "pointCount t = length (allRows t)"
    "\<forall>leaf \<in> set t. groupMap leaf
       = filter (\<lambda>g. g \<notin> set [''test1'', ''test2'', ''test3'']) [''test1'', ''test2'', ''test3'', ''test4'']"
    by blast
  have ids: "map pointId (allRows t) = [1, 4]"
    unfolding t(2) testTree_rows by simp
  then have cnt: "pointCount t = 2"
    using t(3) by (metis length_map length_Cons list.size(3) One_nat_def Suc_1)
  have "t \<noteq> []" using ids by (auto simp: allRows_def)
  then obtain leaf rest where lr: "t = leaf # rest" by (cases t) auto
  have grp: "\<forall>l \<in> set t. groupMap l = [''test4'']"
    using t(4) by simp
  show ?thesis
    using t(1) ids cnt grp unfolding lr
    by (intro exI[of _ leaf] exI[of _ rest]) (simp add: hasGroup_def)
qed

lemma sameLayoutAs_sameLayout: "sameLayoutAs sameLayout"
  by (simp add: sameLayoutAs_def sameLayout_def)

theorem deleteFromGroups_test_witness:
  "sameLayoutAs sameLayout
   \<and> (\<exists>leaf rest.
      deleteFromGroups sameLayout testTree [''test1'', ''test2'', ''test3''] False True = Inr (leaf # rest)
      \<and> pointCount (leaf # rest) = 2
      \<and> \<not> hasGroup (groupMap leaf) ''test1'' \<and> \<not> hasGroup (groupMap leaf) ''test2''
      \<and> \<not> hasGroup (groupMap leaf) ''test3'' \<and> hasGroup (groupMap leaf) ''test4'')"
  using deleteFromGroups_test[OF sameLayoutAs_sameLayout] sameLayoutAs_sameLayout
  by fastforce

section \<open>The morphology engine\<close>

text \<open>
  Membership in a dilated set; the three offset tables are the offsets
  of the block of 3 x 3 x 3 voxels with Manhattan norm from 1 up to 1, 2 and 3. Repeated
  face dilation of one voxel gives the Manhattan ball, counted slice by slice.
\<close>

lemma dilateStep_union:
  "dilateStep nn A = A \<union> (\<Union>d \<in> set (neighborOffsets nn). shiftMask d A)"
proof -
  have "fold (\<lambda>d acc. acc \<union> shiftMask d A) ds B = B \<union> (\<Union>d \<in> set ds. shiftMask d A)" for ds B
    by (induction ds arbitrary: B) auto
  then show ?thesis by (simp add: dilateStep_def)
qed

lemma in_dilateStep:
  "q \<in> dilateStep nn A \<longleftrightarrow> q \<in> A \<or> (\<exists>d \<in> set (neighborOffsets nn). \<exists>p \<in> A. q = offsetBy p d)"
  by (auto simp: dilateStep_union shiftMask_def)

lemma dilate_single:
  "dilateStep nn {(x, y, z)} = insert (x, y, z) ((\<lambda>d. offsetBy (x, y, z) d) ` set (neighborOffsets nn))"
  by (auto simp: in_dilateStep)

lemma count_face: "card (dilateStep NN_FACE {(x, y, z)}) = 7"
  by (simp add: dilate_single faceOffsets_def offsetBy_def)

lemma count_face_edge: "card (dilateStep NN_FACE_EDGE {(x, y, z)}) = 19"
  by (simp add: dilate_single faceOffsets_def edgeOffsets_def offsetBy_def)

lemma count_face_edge_vertex: "card (dilateStep NN_FACE_EDGE_VERTEX {(x, y, z)}) = 27"
  by (simp add: dilate_single faceOffsets_def edgeOffsets_def vertexOffsets_def offsetBy_def)

lemma abs_le_one: "\<bar>a :: int\<bar> \<le> 1 \<longleftrightarrow> a = -1 \<or> a = 0 \<or> a = 1"
  by arith

lemma offsets_characterised:
  "(i, j, k) \<in> set (neighborOffsets nn) \<longleftrightarrow>
     \<bar>i\<bar> \<le> 1 \<and> \<bar>j\<bar> \<le> 1 \<and> \<bar>k\<bar> \<le> 1 \<and> 1 \<le> \<bar>i\<bar> + \<bar>j\<bar> + \<bar>k\<bar>
     \<and> \<bar>i\<bar> + \<bar>j\<bar> + \<bar>k\<bar> \<le> maxDistance nn"
proof
  assume "(i, j, k) \<in> set (neighborOffsets nn)"
  then show "\<bar>i\<bar> \<le> 1 \<and> \<bar>j\<bar> \<le> 1 \<and> \<bar>k\<bar> \<le> 1 \<and> 1 \<le> \<bar>i\<bar> + \<bar>j\<bar> + \<bar>k\<bar>
     \<and> \<bar>i\<bar> + \<bar>j\<bar> + \<bar>k\<bar> \<le> maxDistance nn"
    by (cases nn) (auto simp: faceOffsets_def edgeOffsets_def vertexOffsets_def)
next
  assume a: "\<bar>i\<bar> \<le> 1 \<and> \<bar>j\<bar> \<le> 1 \<and> \<bar>k\<bar> \<le> 1 \<and> 1 \<le> \<bar>i\<bar> + \<bar>j\<bar> + \<bar>k\<bar>
     \<and> \<bar>i\<bar> + \<bar>j\<bar> + \<bar>k\<bar> \<le> maxDistance nn"
  then have i: "i = -1 \<or> i = 0 \<or> i = 1" and j: "j = -1 \<or> j = 0 \<or> j = 1"
    and k: "k = -1 \<or> k = 0 \<or> k = 1"
    by (simp_all add: abs_le_one)
  from a have b: "1 \<le> \<bar>i\<bar> + \<bar>j\<bar> + \<bar>k\<bar>" "\<bar>i\<bar> + \<bar>j\<bar> + \<bar>k\<bar> \<le> maxDistance nn" by simp_all
  show "(i, j, k) \<in> set (neighborOffsets nn)"
  proof (cases nn)
    case NN_FACE
    from i j k b show ?thesis unfolding NN_FACE
      by (elim disjE) (simp_all add: faceOffsets_def)
  next
    case NN_FACE_EDGE
    from i j k b show ?thesis unfolding NN_FACE_EDGE
      by (elim disjE) (simp_all add: faceOffsets_def edgeOffsets_def)
  next
    case NN_FACE_EDGE_VERTEX
    from i j k b show ?thesis unfolding NN_FACE_EDGE_VERTEX
      by (elim disjE) (simp_all add: faceOffsets_def edgeOffsets_def vertexOffsets_def)
  qed
qed

lemma in_dilate_single:
  "(u, v, w) \<in> dilateStep nn {(x, y, z)} \<longleftrightarrow>
     inBlock (x, y, z) (u, v, w) \<and> manhattan (x, y, z) (u, v, w) \<le> maxDistance nn"
proof -
  have "(u, v, w) \<in> dilateStep nn {(x, y, z)} \<longleftrightarrow>
      (u, v, w) = (x, y, z) \<or> (\<exists>d \<in> set (neighborOffsets nn). (u, v, w) = offsetBy (x, y, z) d)"
    by (auto simp: in_dilateStep)
  also have "(\<exists>d \<in> set (neighborOffsets nn). (u, v, w) = offsetBy (x, y, z) d)
      \<longleftrightarrow> (u - x, v - y, w - z) \<in> set (neighborOffsets nn)"
  proof
    assume "\<exists>d \<in> set (neighborOffsets nn). (u, v, w) = offsetBy (x, y, z) d"
    then obtain i j k where d: "(i, j, k) \<in> set (neighborOffsets nn)"
      "(u, v, w) = offsetBy (x, y, z) (i, j, k)"
      by (metis prod_cases3)
    from d(2) have "i = u - x" "j = v - y" "k = w - z" by (simp_all add: offsetBy_def)
    with d(1) show "(u - x, v - y, w - z) \<in> set (neighborOffsets nn)" by simp
  next
    assume "(u - x, v - y, w - z) \<in> set (neighborOffsets nn)"
    moreover have "(u, v, w) = offsetBy (x, y, z) (u - x, v - y, w - z)"
      by (simp add: offsetBy_def)
    ultimately show "\<exists>d \<in> set (neighborOffsets nn). (u, v, w) = offsetBy (x, y, z) d" by blast
  qed
  also have "(u, v, w) = (x, y, z) \<or> (u - x, v - y, w - z) \<in> set (neighborOffsets nn)
      \<longleftrightarrow> inBlock (x, y, z) (u, v, w) \<and> manhattan (x, y, z) (u, v, w) \<le> maxDistance nn"
  proof -
    have m: "0 \<le> maxDistance nn" by (cases nn) simp_all
    have e: "(u, v, w) = (x, y, z) \<longleftrightarrow> \<bar>u - x\<bar> + \<bar>v - y\<bar> + \<bar>w - z\<bar> = 0" by auto
    have s: "\<bar>x - u\<bar> = \<bar>u - x\<bar>" "\<bar>y - v\<bar> = \<bar>v - y\<bar>" "\<bar>z - w\<bar> = \<bar>w - z\<bar>" by simp_all
    show ?thesis
      unfolding offsets_characterised inBlock_def manhattan_def e prod.case s
      using m by arith
  qed
  finally show ?thesis .
qed

lemma manhattan_step:
  assumes "(i, j, k) \<in> set faceOffsets"
  shows "manhattan p (offsetBy (u, v, w) (i, j, k)) \<le> manhattan p (u, v, w) + 1"
  using assms by (cases p) (auto simp: faceOffsets_def manhattan_def offsetBy_def)

lemma manhattan_toward:
  assumes "manhattan (x, y, z) (u, v, w) = int n + 1"
  shows "\<exists>r d. d \<in> set faceOffsets \<and> manhattan (x, y, z) r = int n \<and> (u, v, w) = offsetBy r d"
proof -
  consider "x < u" | "u < x" | "x = u" "y < v" | "x = u" "v < y" | "x = u" "y = v" "z < w"
    | "x = u" "y = v" "w < z"
    using assms by (auto simp: manhattan_def) linarith
  then show ?thesis
  proof cases
    case 1
    then have "manhattan (x, y, z) (u - 1, v, w) = int n" using assms by (simp add: manhattan_def)
    moreover have "(u, v, w) = offsetBy (u - 1, v, w) (1, 0, 0)" by (simp add: offsetBy_def)
    moreover have "(1, 0, 0) \<in> set faceOffsets" by (simp add: faceOffsets_def)
    ultimately show ?thesis by blast
  next
    case 2
    then have "manhattan (x, y, z) (u + 1, v, w) = int n" using assms by (simp add: manhattan_def)
    moreover have "(u, v, w) = offsetBy (u + 1, v, w) (-1, 0, 0)" by (simp add: offsetBy_def)
    moreover have "(-1, 0, 0) \<in> set faceOffsets" by (simp add: faceOffsets_def)
    ultimately show ?thesis by blast
  next
    case 3
    then have "manhattan (x, y, z) (u, v - 1, w) = int n" using assms by (simp add: manhattan_def)
    moreover have "(u, v, w) = offsetBy (u, v - 1, w) (0, 1, 0)" by (simp add: offsetBy_def)
    moreover have "(0, 1, 0) \<in> set faceOffsets" by (simp add: faceOffsets_def)
    ultimately show ?thesis by blast
  next
    case 4
    then have "manhattan (x, y, z) (u, v + 1, w) = int n" using assms by (simp add: manhattan_def)
    moreover have "(u, v, w) = offsetBy (u, v + 1, w) (0, -1, 0)" by (simp add: offsetBy_def)
    moreover have "(0, -1, 0) \<in> set faceOffsets" by (simp add: faceOffsets_def)
    ultimately show ?thesis by blast
  next
    case 5
    then have "manhattan (x, y, z) (u, v, w - 1) = int n" using assms by (simp add: manhattan_def)
    moreover have "(u, v, w) = offsetBy (u, v, w - 1) (0, 0, 1)" by (simp add: offsetBy_def)
    moreover have "(0, 0, 1) \<in> set faceOffsets" by (simp add: faceOffsets_def)
    ultimately show ?thesis by blast
  next
    case 6
    then have "manhattan (x, y, z) (u, v, w + 1) = int n" using assms by (simp add: manhattan_def)
    moreover have "(u, v, w) = offsetBy (u, v, w + 1) (0, 0, -1)" by (simp add: offsetBy_def)
    moreover have "(0, 0, -1) \<in> set faceOffsets" by (simp add: faceOffsets_def)
    ultimately show ?thesis by blast
  qed
qed

lemma dilate_face_ball:
  "(dilateStep NN_FACE ^^ n) {p} = {q. manhattan p q \<le> int n}"
proof (induction n)
  case 0
  show ?case by (cases p) (auto simp: manhattan_def)
next
  case (Suc n)
  obtain x y z where p: "p = (x, y, z)" by (cases p)
  have "dilateStep NN_FACE {q. manhattan p q \<le> int n} = {q. manhattan p q \<le> int (Suc n)}"
  proof (intro set_eqI iffI)
    fix q assume "q \<in> dilateStep NN_FACE {q. manhattan p q \<le> int n}"
    then consider "manhattan p q \<le> int n"
      | d r where "d \<in> set faceOffsets" "manhattan p r \<le> int n" "q = offsetBy r d"
      by (auto simp: in_dilateStep)
    then show "q \<in> {q. manhattan p q \<le> int (Suc n)}"
    proof cases
      case 1
      then show ?thesis by simp
    next
      case 2
      obtain i j k where d: "d = (i, j, k)" by (cases d)
      obtain u v w where r: "r = (u, v, w)" by (cases r)
      show ?thesis using manhattan_step[of i j k p u v w] 2 by (simp add: d r)
    qed
  next
    fix q assume q: "q \<in> {q. manhattan p q \<le> int (Suc n)}"
    obtain u v w where quvw: "q = (u, v, w)" by (cases q)
    show "q \<in> dilateStep NN_FACE {q. manhattan p q \<le> int n}"
    proof (cases "manhattan p q \<le> int n")
      case True
      then show ?thesis by (simp add: in_dilateStep)
    next
      case False
      then have "manhattan (x, y, z) (u, v, w) = int n + 1" using q by (simp add: p quvw)
      from manhattan_toward[OF this]
      obtain r d where rd: "d \<in> set faceOffsets" "manhattan (x, y, z) r = int n"
          "(u, v, w) = offsetBy r d"
        by blast
      have "r \<in> {q. manhattan p q \<le> int n}" using rd(2) by (simp add: p)
      with rd(1,3) show ?thesis
        unfolding in_dilateStep quvw by (intro disjI2 bexI[of _ d] bexI[of _ r]) simp_all
    qed
  qed
  then show ?case by (simp add: Suc.IH)
qed

lemma ball_as_Sigma:
  "{q. manhattan (x, y, z) q \<le> n}
     = (\<lambda>(i, j, k). (x + i, y + j, z + k)) `
         (SIGMA i:{- n..n}. SIGMA j:{- (n - \<bar>i\<bar>)..n - \<bar>i\<bar>}. {- (n - \<bar>i\<bar> - \<bar>j\<bar>)..n - \<bar>i\<bar> - \<bar>j\<bar>})"
proof (intro set_eqI iffI)
  fix q assume q: "q \<in> {q. manhattan (x, y, z) q \<le> n}"
  obtain u v w where quvw: "q = (u, v, w)" by (cases q)
  have "(u - x, v - y, w - z) \<in>
      (SIGMA i:{- n..n}. SIGMA j:{- (n - \<bar>i\<bar>)..n - \<bar>i\<bar>}. {- (n - \<bar>i\<bar> - \<bar>j\<bar>)..n - \<bar>i\<bar> - \<bar>j\<bar>})"
    using q by (auto simp: quvw manhattan_def)
  moreover have "q = (\<lambda>(i, j, k). (x + i, y + j, z + k)) (u - x, v - y, w - z)"
    by (simp add: quvw)
  ultimately show "q \<in> (\<lambda>(i, j, k). (x + i, y + j, z + k)) `
         (SIGMA i:{- n..n}. SIGMA j:{- (n - \<bar>i\<bar>)..n - \<bar>i\<bar>}. {- (n - \<bar>i\<bar> - \<bar>j\<bar>)..n - \<bar>i\<bar> - \<bar>j\<bar>})"
    by (rule image_eqI[rotated])
next
  fix q assume "q \<in> (\<lambda>(i, j, k). (x + i, y + j, z + k)) `
         (SIGMA i:{- n..n}. SIGMA j:{- (n - \<bar>i\<bar>)..n - \<bar>i\<bar>}. {- (n - \<bar>i\<bar> - \<bar>j\<bar>)..n - \<bar>i\<bar> - \<bar>j\<bar>})"
  then show "q \<in> {q. manhattan (x, y, z) q \<le> n}"
    by (auto simp: manhattan_def)
qed

lemma card_ball: "card {q. manhattan p q \<le> n} = ballCount n"
proof -
  obtain x y z where p: "p = (x, y, z)" by (cases p)
  have inj: "inj_on (\<lambda>(i, j, k). (x + i, y + j, z + k)) S" for S :: "(int \<times> int \<times> int) set"
    by (auto simp: inj_on_def)
  have "card {q. manhattan p q \<le> n}
      = card (SIGMA i:{- n..n}. SIGMA j:{- (n - \<bar>i\<bar>)..n - \<bar>i\<bar>}. {- (n - \<bar>i\<bar> - \<bar>j\<bar>)..n - \<bar>i\<bar> - \<bar>j\<bar>})"
    unfolding p ball_as_Sigma by (rule card_image[OF inj])
  also have "\<dots> = (\<Sum>i \<in> {- n..n}. \<Sum>j \<in> {- (n - \<bar>i\<bar>)..n - \<bar>i\<bar>}.
      card {- (n - \<bar>i\<bar> - \<bar>j\<bar>)..n - \<bar>i\<bar> - \<bar>j\<bar>})"
    by simp
  also have "\<dots> = ballCount n"
    unfolding ballCount_def
    by (intro sum.cong refl) (simp add: algebra_simps)
  finally show ?thesis .
qed

lemma ballCount_values:
  "map ballCount [0, 1, 2, 3, 4, 5, 6, 7, 8, 9, 10]
     = [1, 7, 25, 63, 129, 231, 377, 575, 833, 1159, 1561]"
  by code_simp

text \<open>
  C1. For every tree with exactly one active voxel, one dilation step
  (\<^verbatim>\<open>dilateVoxels\<close> or \<^verbatim>\<open>dilateActiveValues\<close> with radius 1) yields exactly 7 active
  voxels under \<^verbatim>\<open>NN_FACE\<close>, 19 under \<^verbatim>\<open>NN_FACE_EDGE\<close> and 27 under
  \<^verbatim>\<open>NN_FACE_EDGE_VERTEX\<close>, and the active voxels are exactly those of the 3 x 3 x 3
  block around the seed at Manhattan distance at most 1, 2 and 3.
\<close>

theorem dilate_single_voxel:
  "activeVoxelCount (dilateVoxels {p} 1 NN_FACE) = 7
   \<and> activeVoxelCount (dilateVoxels {p} 1 NN_FACE_EDGE) = 19
   \<and> activeVoxelCount (dilateVoxels {p} 1 NN_FACE_EDGE_VERTEX) = 27
   \<and> dilateActiveValues {p} 1 nn = dilateVoxels {p} 1 nn
   \<and> (q \<in> dilateVoxels {p} 1 nn \<longleftrightarrow> inBlock p q \<and> manhattan p q \<le> maxDistance nn)"
proof -
  obtain x y z where p: "p = (x, y, z)" by (cases p)
  obtain u v w where q: "q = (u, v, w)" by (cases q)
  have one: "dilateVoxels A 1 c = dilateStep c A" for A c by (simp add: dilateVoxels_def)
  show ?thesis
    unfolding one activeVoxelCount_def p q
    using count_face[of x y z] count_face_edge[of x y z] count_face_edge_vertex[of x y z]
      in_dilate_single[of u v w nn x y z]
    by (simp add: dilateActiveValues_def)
qed

text \<open>
  C4. Starting from a single active voxel and dilating with \<^verbatim>\<open>NN_FACE\<close>, the numbers
  of active voxels after 0 to 10 iterations are 1, 7, 25, 63, 129, 231, 377, 575, 833,
  1159, 1561, and \<^verbatim>\<open>n\<close> calls with radius 1 give the same tree as one call with radius
  \<^verbatim>\<open>n\<close>, for \<^verbatim>\<open>dilateVoxels\<close> and for \<^verbatim>\<open>dilateActiveValues\<close>.
\<close>

theorem repeated_dilation_counts:
  "map (\<lambda>n. activeVoxelCount (dilateVoxels {p} n NN_FACE)) [0, 1, 2, 3, 4, 5, 6, 7, 8, 9, 10]
     = [1, 7, 25, 63, 129, 231, 377, 575, 833, 1159, 1561]
   \<and> ((\<lambda>A. dilateVoxels A 1 NN_FACE) ^^ n) {p} = dilateVoxels {p} n NN_FACE
   \<and> dilateActiveValues {p} n NN_FACE = dilateVoxels {p} n NN_FACE"
proof -
  have c: "activeVoxelCount (dilateVoxels {p} k NN_FACE) = ballCount (int k)" for k
    by (simp add: activeVoxelCount_def dilateVoxels_def dilate_face_ball card_ball)
  have one: "(\<lambda>A. dilateVoxels A 1 NN_FACE) = dilateStep NN_FACE"
    by (rule ext) (simp add: dilateVoxels_def)
  have "map (\<lambda>n. activeVoxelCount (dilateVoxels {p} n NN_FACE)) [0, 1, 2, 3, 4, 5, 6, 7, 8, 9, 10]
      = map ballCount [0, 1, 2, 3, 4, 5, 6, 7, 8, 9, 10]"
    unfolding c by simp
  then have "map (\<lambda>n. activeVoxelCount (dilateVoxels {p} n NN_FACE)) [0, 1, 2, 3, 4, 5, 6, 7, 8, 9, 10]
      = [1, 7, 25, 63, 129, 231, 377, 575, 833, 1159, 1561]"
    by (simp only: ballCount_values)
  moreover have "((\<lambda>A. dilateVoxels A 1 NN_FACE) ^^ n) {p} = dilateVoxels {p} n NN_FACE"
    by (simp add: one dilateVoxels_def)
  moreover have "dilateActiveValues {p} n NN_FACE = dilateVoxels {p} n NN_FACE"
    by (simp add: dilateVoxels_def dilateActiveValues_def)
  ultimately show ?thesis by (simp only: simp_thms)
qed

lemma dilateStep_UN: "dilateStep nn (\<Union>a \<in> A. B a) = (\<Union>a \<in> A. dilateStep nn (B a))"
proof (rule set_eqI)
  fix q
  show "q \<in> dilateStep nn (\<Union>a \<in> A. B a) \<longleftrightarrow> q \<in> (\<Union>a \<in> A. dilateStep nn (B a))"
    unfolding in_dilateStep UN_iff by blast
qed

lemma dilate_funpow_UN: "(dilateStep nn ^^ r) A = (\<Union>a \<in> A. (dilateStep nn ^^ r) {a})"
proof (induction r)
  case 0
  show ?case by simp
next
  case (Suc r)
  have "(dilateStep nn ^^ Suc r) A = dilateStep nn (\<Union>a \<in> A. (dilateStep nn ^^ r) {a})"
    using Suc.IH by simp
  then show ?case by (simp add: dilateStep_UN)
qed

text \<open>
  Erosion by faces. Dilating and then eroding never loses a voxel. A voxel that
  survives \<^verbatim>\<open>r\<close> erosions has its \<^verbatim>\<open>r\<close>-th neighbour along every face offset in the
  set. Eroding the Manhattan ball of radius \<^verbatim>\<open>n + 1\<close> gives the ball of radius \<^verbatim>\<open>n\<close>,
  and eroding a single voxel leaves nothing, as the unit tests expect when they erode
  the dilated voxel back step by step.
\<close>

lemma in_erodeStep:
  "q \<in> erodeStep A \<longleftrightarrow> q \<in> A \<and> (\<forall>d \<in> set faceOffsets. offsetBy q d \<in> A)"
  by (auto simp: erodeStep_def list_all_iff)

lemma face_is_neighbor: "d \<in> set faceOffsets \<Longrightarrow> d \<in> set (neighborOffsets NN_FACE)"
  by simp

lemma closing_extensive: "A \<subseteq> erodeStep (dilateStep NN_FACE A)"
proof
  fix a assume "a \<in> A"
  then show "a \<in> erodeStep (dilateStep NN_FACE A)"
    unfolding in_erodeStep in_dilateStep using face_is_neighbor by blast
qed

lemma erodeStep_mono: "A \<subseteq> B \<Longrightarrow> erodeStep A \<subseteq> erodeStep B"
  unfolding subset_iff in_erodeStep by blast

lemma erode_funpow_mono: "A \<subseteq> B \<Longrightarrow> (erodeStep ^^ r) A \<subseteq> (erodeStep ^^ r) B"
proof (induction r)
  case 0
  then show ?case by simp
next
  case (Suc r)
  then show ?case using erodeStep_mono[of "(erodeStep ^^ r) A" "(erodeStep ^^ r) B"]
    by simp
qed

lemma closing_funpow_extensive: "A \<subseteq> (erodeStep ^^ r) ((dilateStep NN_FACE ^^ r) A)"
proof (induction r)
  case 0
  show ?case by simp
next
  case (Suc r)
  have "(erodeStep ^^ Suc r) ((dilateStep NN_FACE ^^ Suc r) A)
      = (erodeStep ^^ r) (erodeStep (dilateStep NN_FACE ((dilateStep NN_FACE ^^ r) A)))"
    by (simp add: funpow_swap1)
  moreover have "(erodeStep ^^ r) ((dilateStep NN_FACE ^^ r) A)
      \<subseteq> (erodeStep ^^ r) (erodeStep (dilateStep NN_FACE ((dilateStep NN_FACE ^^ r) A)))"
    by (rule erode_funpow_mono) (rule closing_extensive)
  ultimately show ?case using Suc.IH by blast
qed

lemma erode_reach:
  assumes "d \<in> set faceOffsets"
  shows "q \<in> (erodeStep ^^ r) B \<Longrightarrow> ((\<lambda>c. offsetBy c d) ^^ r) q \<in> B"
proof (induction r arbitrary: q)
  case 0
  then show ?case by simp
next
  case (Suc r)
  then have "offsetBy q d \<in> (erodeStep ^^ r) B"
    using assms by (simp add: in_erodeStep)
  then have "((\<lambda>c. offsetBy c d) ^^ r) (offsetBy q d) \<in> B" by (rule Suc.IH)
  moreover have "((\<lambda>c. offsetBy c d) ^^ Suc r) q = ((\<lambda>c. offsetBy c d) ^^ r) (offsetBy q d)"
    by (simp only: funpow_Suc_right o_apply)
  ultimately show ?case by (simp only:)
qed

lemma shift_funpow:
  "((\<lambda>c. offsetBy c (i, j, k)) ^^ r) (u, v, w) = (u + int r * i, v + int r * j, w + int r * k)"
  by (induction r) (simp_all add: offsetBy_def algebra_simps)

lemma erode_funpow_subset: "(erodeStep ^^ r) B \<subseteq> B"
proof (induction r)
  case 0
  show ?case by simp
next
  case (Suc r)
  have "erodeStep ((erodeStep ^^ r) B) \<subseteq> (erodeStep ^^ r) B"
    unfolding subset_iff in_erodeStep by blast
  then show ?case using Suc.IH by simp
qed

lemma erode_ball:
  "erodeStep {q. manhattan p q \<le> int (Suc n)} = {q. manhattan p q \<le> int n}"
proof (rule set_eqI)
  fix q :: Coord
  obtain x y z where p: "p = (x, y, z)" by (cases p)
  obtain u v w where q: "q = (u, v, w)" by (cases q)
  have inner: "\<bar>x - u\<bar> + \<bar>y - v\<bar> + \<bar>z - w\<bar> \<le> int n"
    if "\<bar>x - (u - 1)\<bar> + \<bar>y - v\<bar> + \<bar>z - w\<bar> \<le> 1 + int n"
      and "\<bar>x - (u + 1)\<bar> + \<bar>y - v\<bar> + \<bar>z - w\<bar> \<le> 1 + int n"
    using that by linarith
  have outer: "\<bar>x - u\<bar> + \<bar>y - v\<bar> + \<bar>z - w\<bar> \<le> 1 + int n"
    "\<bar>x - (u - 1)\<bar> + \<bar>y - v\<bar> + \<bar>z - w\<bar> \<le> 1 + int n"
    "\<bar>x - (u + 1)\<bar> + \<bar>y - v\<bar> + \<bar>z - w\<bar> \<le> 1 + int n"
    "\<bar>x - u\<bar> + \<bar>y - (v - 1)\<bar> + \<bar>z - w\<bar> \<le> 1 + int n"
    "\<bar>x - u\<bar> + \<bar>y - (v + 1)\<bar> + \<bar>z - w\<bar> \<le> 1 + int n"
    "\<bar>x - u\<bar> + \<bar>y - v\<bar> + \<bar>z - (w - 1)\<bar> \<le> 1 + int n"
    "\<bar>x - u\<bar> + \<bar>y - v\<bar> + \<bar>z - (w + 1)\<bar> \<le> 1 + int n"
    if "\<bar>x - u\<bar> + \<bar>y - v\<bar> + \<bar>z - w\<bar> \<le> int n"
    using that by linarith+
  have "q \<in> erodeStep {q. manhattan p q \<le> int (Suc n)}
      \<longleftrightarrow> \<bar>x - u\<bar> + \<bar>y - v\<bar> + \<bar>z - w\<bar> \<le> 1 + int n
        \<and> \<bar>x - (u - 1)\<bar> + \<bar>y - v\<bar> + \<bar>z - w\<bar> \<le> 1 + int n
        \<and> \<bar>x - (u + 1)\<bar> + \<bar>y - v\<bar> + \<bar>z - w\<bar> \<le> 1 + int n
        \<and> \<bar>x - u\<bar> + \<bar>y - (v - 1)\<bar> + \<bar>z - w\<bar> \<le> 1 + int n
        \<and> \<bar>x - u\<bar> + \<bar>y - (v + 1)\<bar> + \<bar>z - w\<bar> \<le> 1 + int n
        \<and> \<bar>x - u\<bar> + \<bar>y - v\<bar> + \<bar>z - (w - 1)\<bar> \<le> 1 + int n
        \<and> \<bar>x - u\<bar> + \<bar>y - v\<bar> + \<bar>z - (w + 1)\<bar> \<le> 1 + int n"
    by (simp add: in_erodeStep faceOffsets_def offsetBy_def manhattan_def p q)
  also have "\<dots> \<longleftrightarrow> \<bar>x - u\<bar> + \<bar>y - v\<bar> + \<bar>z - w\<bar> \<le> int n"
    using inner outer by blast
  finally show "q \<in> erodeStep {q. manhattan p q \<le> int (Suc n)} \<longleftrightarrow> q \<in> {q. manhattan p q \<le> int n}"
    by (simp add: manhattan_def p q)
qed

lemma erode_single: "erodeStep {p} = {}"
proof -
  obtain x y z where p: "p = (x, y, z)" by (cases p)
  show ?thesis
    by (auto simp: in_erodeStep faceOffsets_def offsetBy_def p)
qed

lemma erode_dilated_voxel:
  "(erodeStep ^^ k) ((dilateStep NN_FACE ^^ (n + k)) {p}) = (dilateStep NN_FACE ^^ n) {p}"
proof (induction k)
  case 0
  show ?case by simp
next
  case (Suc k)
  have ball: "(dilateStep NN_FACE ^^ (n + Suc k)) {p} = {q. manhattan p q \<le> int (Suc (n + k))}"
    by (simp only: dilate_face_ball add_Suc_right)
  have "(erodeStep ^^ Suc k) ((dilateStep NN_FACE ^^ (n + Suc k)) {p})
      = (erodeStep ^^ k) (erodeStep {q. manhattan p q \<le> int (Suc (n + k))})"
    unfolding ball by (simp only: funpow_Suc_right o_apply)
  also have "\<dots> = (erodeStep ^^ k) ((dilateStep NN_FACE ^^ (n + k)) {p})"
    by (simp only: erode_ball dilate_face_ball)
  also have "\<dots> = (dilateStep NN_FACE ^^ n) {p}" by (rule Suc.IH)
  finally show ?case .
qed

lemma three_in_a_row:
  "card (dilateStep NN_FACE {(0, 0, 0), (1, 0, 0), (-1, 0, 0)}) = 17"
  "erodeStep (dilateStep NN_FACE {(0, 0, 0), (1, 0, 0), (-1, 0, 0)}) = {(0, 0, 0), (1, 0, 0), (-1, 0, 0)}"
  by code_simp+

lemma six_isolated: "isolated NN_FACE sixAroundOrigin"
  by (simp add: isolated_def sixAroundOrigin_def faceOffsets_def offsetBy_def)

lemma six_closing:
  "erodeStep (dilateStep NN_FACE sixAroundOrigin) = insert (0, 0, 0) sixAroundOrigin"
  by code_simp

text \<open>
  The separation that makes the closing give back the set: a voxel that survives the
  erosions lies within \<^verbatim>\<open>r\<close> of some active voxel \<^verbatim>\<open>a\<close>, and its four neighbours at
  distance \<^verbatim>\<open>r\<close> along two axes lie within \<^verbatim>\<open>r\<close> of active voxels, which are within
  \<^verbatim>\<open>3 * r\<close> of \<^verbatim>\<open>a\<close> and hence are \<^verbatim>\<open>a\<close>. The bound cannot be lowered:
  \<^verbatim>\<open>fourAtDistanceThree\<close> has its voxels 3 and 4 apart, and one dilation and erosion
  activates the origin.
\<close>

lemma manhattan_triangle: "manhattan a c \<le> manhattan a b + manhattan b c"
proof -
  obtain x y z where a: "a = (x, y, z)" by (cases a)
  obtain x' y' z' where b: "b = (x', y', z')" by (cases b)
  obtain x'' y'' z'' where c: "c = (x'', y'', z'')" by (cases c)
  have "\<bar>x - x''\<bar> \<le> \<bar>x - x'\<bar> + \<bar>x' - x''\<bar>" "\<bar>y - y''\<bar> \<le> \<bar>y - y'\<bar> + \<bar>y' - y''\<bar>"
    "\<bar>z - z''\<bar> \<le> \<bar>z - z'\<bar> + \<bar>z' - z''\<bar>"
    by linarith+
  then show ?thesis by (simp add: manhattan_def a b c)
qed

lemma manhattan_commute: "manhattan a b = manhattan b a"
  by (cases a, cases b) (simp add: manhattan_def abs_minus_commute)

lemma manhattan_face_shift:
  assumes "(i, j, k) \<in> set faceOffsets"
  shows "manhattan (u, v, w) (u + int r * i, v + int r * j, w + int r * k) = int r"
  using assms by (auto simp: faceOffsets_def manhattan_def)

lemma dilate_then_erode_separated:
  assumes sep: "separated r A"
  shows "(erodeStep ^^ r) ((dilateStep NN_FACE ^^ r) A) = A"
proof
  show "A \<subseteq> (erodeStep ^^ r) ((dilateStep NN_FACE ^^ r) A)"
    by (rule closing_funpow_extensive)
next
  show "(erodeStep ^^ r) ((dilateStep NN_FACE ^^ r) A) \<subseteq> A"
  proof
    fix q assume q: "q \<in> (erodeStep ^^ r) ((dilateStep NN_FACE ^^ r) A)"
    obtain u v w where quvw: "q = (u, v, w)" by (cases q)
    have "q \<in> (dilateStep NN_FACE ^^ r) A" using q erode_funpow_subset by blast
    then obtain a where a: "a \<in> A" "q \<in> (dilateStep NN_FACE ^^ r) {a}"
      using dilate_funpow_UN[where nn=NN_FACE and r=r and A=A] by blast
    obtain x y z where axyz: "a = (x, y, z)" by (cases a)
    have near: "manhattan a q \<le> int r"
      using a(2) by (simp add: dilate_face_ball)
    have reach: "manhattan a (u + int r * i, v + int r * j, w + int r * k) \<le> int r"
      if f: "(i, j, k) \<in> set faceOffsets" for i j k
    proof -
      let ?s = "(u + int r * i, v + int r * j, w + int r * k)"
      have "?s \<in> (dilateStep NN_FACE ^^ r) A"
        using erode_reach[OF f, where q=q and r=r and B="(dilateStep NN_FACE ^^ r) A"] q
        by (simp add: quvw shift_funpow)
      then obtain b where b: "b \<in> A" "?s \<in> (dilateStep NN_FACE ^^ r) {b}"
        using dilate_funpow_UN[where nn=NN_FACE and r=r and A=A] by blast
      have far: "manhattan b ?s \<le> int r"
        using b(2) by (simp add: dilate_face_ball)
      have "manhattan a b \<le> manhattan a q + manhattan q b"
        by (rule manhattan_triangle)
      also have "manhattan q b \<le> manhattan q ?s + manhattan ?s b"
        by (rule manhattan_triangle)
      finally have "manhattan a b \<le> manhattan a q + (manhattan q ?s + manhattan ?s b)"
        by simp
      moreover have "manhattan q ?s = int r"
        unfolding quvw using f by (rule manhattan_face_shift)
      moreover have "manhattan ?s b = manhattan b ?s" by (rule manhattan_commute)
      ultimately have "manhattan a b \<le> 3 * int r"
        using near far by linarith
      moreover have "a = b \<or> 3 * int r < manhattan a b"
        using sep a(1) b(1) unfolding separated_def by blast
      ultimately have "a = b" by linarith
      then show ?thesis using far by simp
    qed
    have x1: "\<bar>x - (u + int r)\<bar> + \<bar>y - v\<bar> + \<bar>z - w\<bar> \<le> int r"
      using reach[of 1 0 0] by (simp add: faceOffsets_def manhattan_def axyz)
    have x2: "\<bar>x - (u - int r)\<bar> + \<bar>y - v\<bar> + \<bar>z - w\<bar> \<le> int r"
      using reach[of "-1" 0 0] by (simp add: faceOffsets_def manhattan_def axyz)
    have y1: "\<bar>x - u\<bar> + \<bar>y - (v + int r)\<bar> + \<bar>z - w\<bar> \<le> int r"
      using reach[of 0 1 0] by (simp add: faceOffsets_def manhattan_def axyz)
    have y2: "\<bar>x - u\<bar> + \<bar>y - (v - int r)\<bar> + \<bar>z - w\<bar> \<le> int r"
      using reach[of 0 "-1" 0] by (simp add: faceOffsets_def manhattan_def axyz)
    have "\<bar>y - v\<bar> + \<bar>z - w\<bar> \<le> 0" using x1 x2 by linarith
    then have "v = y" "w = z" by linarith+
    moreover have "\<bar>x - u\<bar> + \<bar>z - w\<bar> \<le> 0" using y1 y2 by linarith
    then have "u = x" by linarith
    ultimately show "q \<in> A" using a(1) by (simp add: axyz quvw)
  qed
qed

lemma separated_single: "separated r {p}"
  by (simp add: separated_def)

lemma separated_pair: "separated 1 {(0, 0, 0), (2, 2, 0)}"
  by (simp add: separated_def manhattan_def)

lemma separation_bound_tight:
  "(\<forall>a \<in> fourAtDistanceThree. \<forall>b \<in> fourAtDistanceThree. a = b \<or> 3 \<le> manhattan a b)
   \<and> (0, 0, 0) \<notin> fourAtDistanceThree
   \<and> (0, 0, 0) \<in> erodeStep (dilateStep NN_FACE fourAtDistanceThree)"
proof -
  have "(0, 0, 0) \<in> erodeStep (dilateStep NN_FACE fourAtDistanceThree)"
    by code_simp
  then show ?thesis by (simp add: fourAtDistanceThree_def manhattan_def)
qed

text \<open>
  C3, as stated, fails: the six face neighbours of the origin are pairwise not adjacent
  under \<^verbatim>\<open>NN_FACE\<close>, and dilating then eroding them by one voxel activates the origin
  as well, 7 active voxels instead of 6.
\<close>

theorem dilate_erode_isolated_counterexample:
  "isolated NN_FACE sixAroundOrigin
   \<and> activeVoxelCount sixAroundOrigin = 6
   \<and> erodeVoxels (dilateVoxels sixAroundOrigin 1 NN_FACE) 1 NN_FACE
       = Some (insert (0, 0, 0) sixAroundOrigin)
   \<and> map_option activeVoxelCount (erodeVoxels (dilateVoxels sixAroundOrigin 1 NN_FACE) 1 NN_FACE)
       = Some 7"
proof -
  have "activeVoxelCount sixAroundOrigin = 6"
    by (simp add: activeVoxelCount_def sixAroundOrigin_def)
  moreover have "activeVoxelCount (insert (0, 0, 0) sixAroundOrigin) = 7"
    by (simp add: activeVoxelCount_def sixAroundOrigin_def)
  ultimately show ?thesis
    using six_isolated six_closing by (simp add: erodeVoxels_def dilateVoxels_def)
qed

text \<open>
  C3, amended. For every tree in which any two distinct active voxels are at Manhattan
  distance more than \<^verbatim>\<open>3 * r\<close> (a single active voxel in particular), dilating by
  \<^verbatim>\<open>r\<close> and then eroding by \<^verbatim>\<open>r\<close>, both with \<^verbatim>\<open>NN_FACE\<close>, the connectivity for which
  erosion is implemented, gives back exactly the original active set, so the
  active-voxel count returns to its value before the dilation.
\<close>

theorem dilate_erode_separated:
  assumes "separated r A"
  shows "erodeVoxels (dilateVoxels A r NN_FACE) r NN_FACE = Some A
   \<and> map_option activeVoxelCount (erodeVoxels (dilateVoxels A r NN_FACE) r NN_FACE)
       = Some (activeVoxelCount A)"
  using dilate_then_erode_separated[OF assms]
  by (simp add: erodeVoxels_def dilateVoxels_def)

theorem dilate_erode_separated_witness:
  "separated 1 {(0, 0, 0), (2, 2, 0)}
   \<and> erodeVoxels (dilateVoxels {(0, 0, 0), (2, 2, 0)} 1 NN_FACE) 1 NN_FACE
       = Some {(0, 0, 0), (2, 2, 0)}
   \<and> separated 2 {(5, 5, 5)}
   \<and> erodeVoxels (dilateVoxels {(5, 5, 5)} 2 NN_FACE) 2 NN_FACE = Some {(5, 5, 5)}"
  using dilate_erode_separated[OF separated_pair]
    dilate_erode_separated[OF separated_single[of 2 "(5, 5, 5)"]]
    separated_pair separated_single[of 2 "(5, 5, 5)"]
  by simp

end
